theory Spec2Isabelle
  imports Main "HOL-Library.Multiset"
begin

section \<open>Strings\<close>

text \<open>
  A Python \<open>str\<close> is modelled as a \<open>string\<close> whose characters are the code points
  U+0000 to U+00FF. On this range \<open>str.lower\<close>, \<open>str.isspace\<close> and the classes
  \<open>\w\<close> and \<open>\s\<close> of \<open>re\<close> act on one character at a time; the three definitions
  below are Python 3's tables for these code points. Beyond this range \<open>str.lower\<close>
  looks at the neighbours of a character and can change the length of a string; such
  strings are outside the model, and what is proved of \<open>lower\<close> is proved of the strings
  of this range.
\<close>

definition space_code :: "int \<Rightarrow> bool" where
  "space_code n = ((9 \<le> n \<and> n \<le> 13) \<or> (28 \<le> n \<and> n \<le> 32) \<or> n = 133 \<or> n = 160)"

definition word_code :: "int \<Rightarrow> bool" where
  "word_code n =
     ((48 \<le> n \<and> n \<le> 57) \<or> (65 \<le> n \<and> n \<le> 90) \<or> n = 95 \<or> (97 \<le> n \<and> n \<le> 122)
      \<or> n = 170 \<or> n = 178 \<or> n = 179 \<or> n = 181 \<or> n = 185 \<or> n = 186
      \<or> (188 \<le> n \<and> n \<le> 190) \<or> (192 \<le> n \<and> n \<le> 214) \<or> (216 \<le> n \<and> n \<le> 246)
      \<or> (248 \<le> n \<and> n \<le> 255))"

definition upper_code :: "int \<Rightarrow> bool" where
  "upper_code n = ((65 \<le> n \<and> n \<le> 90) \<or> (192 \<le> n \<and> n \<le> 214) \<or> (216 \<le> n \<and> n \<le> 222))"

definition isspace :: "char \<Rightarrow> bool" where
  "isspace c = space_code (of_char c)"

definition isword :: "char \<Rightarrow> bool" where
  "isword c = word_code (of_char c)"

definition lower_char :: "char \<Rightarrow> char" where
  "lower_char c = (if upper_code (of_char c) then char_of (of_char c + (32 :: int)) else c)"

text \<open>\<open>s.lower()\<close>\<close>

definition lower :: "string \<Rightarrow> string" where
  "lower s = map lower_char s"

text \<open>\<open>re.sub(r'[^\w\s]', '', s)\<close>: every character that is neither a word character
  nor white space is deleted.\<close>

definition sub_nonword :: "string \<Rightarrow> string" where
  "sub_nonword s = filter (\<lambda>c. isword c \<or> isspace c) s"

text \<open>\<open>s.split()\<close> with no argument: the maximal runs of characters that are not white
  space, in order; leading and trailing white space gives no empty word.\<close>

function split_ws :: "string \<Rightarrow> string list" where
  "split_ws s =
     (case dropWhile isspace s of
        [] \<Rightarrow> []
      | c # cs \<Rightarrow> takeWhile (\<lambda>x. \<not> isspace x) (c # cs)
                 # split_ws (dropWhile (\<lambda>x. \<not> isspace x) (c # cs)))"
  by pat_completeness auto
termination
proof (relation "measure length")
  show "wf (measure length)" by simp
next
  fix s :: string and c cs
  assume d: "dropWhile isspace s = c # cs"
  then have "\<not> isspace c"
    by (metis hd_dropWhile list.distinct(1) list.sel(1))
  then have "dropWhile (\<lambda>x. \<not> isspace x) (c # cs) = dropWhile (\<lambda>x. \<not> isspace x) cs"
    by simp
  moreover have "length (dropWhile (\<lambda>x. \<not> isspace x) cs) \<le> length cs"
    by (rule length_dropWhile_le)
  moreover have "length (c # cs) \<le> length s"
    using length_dropWhile_le [of isspace s] d by simp
  ultimately show "(dropWhile (\<lambda>x. \<not> isspace x) (c # cs), s) \<in> measure length"
    by simp
qed

declare split_ws.simps [simp del]

text \<open>\<open>sep.join(ws)\<close>\<close>

fun join :: "string \<Rightarrow> string list \<Rightarrow> string" where
  "join sep [] = []"
| "join sep [w] = w"
| "join sep (w # v # ws) = w @ sep @ join sep (v # ws)"

text \<open>
  \<open>clean_string(s)\<close> of \<^verbatim>\<open>liberate-update-metadata.py\<close>. The argument is \<open>None\<close> or a string
  (a short CSV row gives \<open>None\<close> for its missing fields); \<open>not s\<close> holds for \<open>None\<close> and
  for the empty string.
\<close>

definition clean_string :: "string option \<Rightarrow> string" where
  "clean_string s =
     (case s of
        None \<Rightarrow> []
      | Some t \<Rightarrow>
          if t = [] then []
          else (let cleaned = sub_nonword (lower t);
                    cleaned = join '' '' (split_ws cleaned)
                in cleaned))"


lemma isspace_lower_char: "isspace (lower_char c) = isspace c"
  by (auto simp add: lower_char_def isspace_def upper_code_def space_code_def)

lemma isword_lower_char: "isword (lower_char c) = isword c"
  by (auto simp add: lower_char_def isword_def upper_code_def word_code_def)















subsection \<open>Claim C5\<close>




text \<open>\<open>s.startswith(p)\<close>, \<open>s.endswith(e)\<close> and \<open>a in b\<close> on strings.\<close>

fun startswith :: "string \<Rightarrow> string \<Rightarrow> bool" where
  "startswith s [] = True"
| "startswith [] (c # p) = False"
| "startswith (x # s) (c # p) = (x = c \<and> startswith s p)"

definition endswith :: "string \<Rightarrow> string \<Rightarrow> bool" where
  "endswith s e = startswith (rev s) (rev e)"

fun str_in :: "string \<Rightarrow> string \<Rightarrow> bool" where
  "str_in a [] = (a = [])"
| "str_in a (c # b) = (startswith (c # b) a \<or> str_in a b)"

section \<open>Paths\<close>

text \<open>
  \<open>posixpath\<close>: \<open>i = p.rfind('/') + 1\<close> cuts a path into \<open>p[:i]\<close>, which ends with the
  last slash, and \<open>p[i:]\<close>, which has no slash.
\<close>

definition head_part :: "string \<Rightarrow> string" where
  "head_part p = rev (dropWhile (\<lambda>c. c \<noteq> CHR ''/'') (rev p))"

definition basename :: "string \<Rightarrow> string" where
  "basename p = rev (takeWhile (\<lambda>c. c \<noteq> CHR ''/'') (rev p))"

definition dirname :: "string \<Rightarrow> string" where
  "dirname p =
     (let head = head_part p
      in if head \<noteq> [] \<and> head \<noteq> replicate (length head) CHR ''/''
         then rev (dropWhile (\<lambda>c. c = CHR ''/'') (rev head))
         else head)"

text \<open>\<open>os.path.join(a, b)\<close>\<close>

definition path_join :: "string \<Rightarrow> string \<Rightarrow> string" where
  "path_join a b =
     (if startswith b ''/'' then b
      else if a = [] \<or> endswith a ''/'' then a @ b
      else a @ ''/'' @ b)"

section \<open>The catalog\<close>

text \<open>The exceptions the scripts meet, as values.\<close>

datatype error =
    KeyError string
  | AttributeError
  | TypeError
  | IndexError
  | OSError string
  | FileNotFoundError string
  | SameFileError
  | ID3NoHeaderError
  | MutagenError

record book =
  title :: "string option"
  author :: "string option"
  narrator :: "string option"
  series :: "string option"
  series_order :: "string option"

type_synonym row = "string \<rightharpoonup> string option"

definition getitem :: "row \<Rightarrow> string \<Rightarrow> error + string option" where
  "getitem row k = (case row k of None \<Rightarrow> Inl (KeyError k) | Some v \<Rightarrow> Inr v)"

text \<open>\<open>d[k] = v\<close> on a dictionary, which keeps its keys in the order of their first
  insertion: a key already there keeps its place and takes the new value.\<close>

fun dict_set :: "('k \<times> 'v) list \<Rightarrow> 'k \<Rightarrow> 'v \<Rightarrow> ('k \<times> 'v) list" where
  "dict_set [] k v = [(k, v)]"
| "dict_set ((k', v') # d) k v =
     (if k' = k then (k, v) # d else (k', v') # dict_set d k v)"

definition make_entry :: "row \<Rightarrow> error + (string \<times> book)" where
  "make_entry row =
     (case getitem row ''Title'' of Inl e \<Rightarrow> Inl e | Inr t \<Rightarrow>
     (case getitem row ''Authors'' of Inl e \<Rightarrow> Inl e | Inr a \<Rightarrow>
     (case getitem row ''Narrators'' of Inl e \<Rightarrow> Inl e | Inr n \<Rightarrow>
     (case getitem row ''Series Names'' of Inl e \<Rightarrow> Inl e | Inr s \<Rightarrow>
     (case getitem row ''Series Order'' of Inl e \<Rightarrow> Inl e | Inr so \<Rightarrow>
        Inr (clean_string t,
             \<lparr>title = t, author = a, narrator = n, series = s, series_order = so\<rparr>))))))"

fun load_rows :: "(string \<times> book) list \<Rightarrow> row list \<Rightarrow> error + (string \<times> book) list" where
  "load_rows audiobooks [] = Inr audiobooks"
| "load_rows audiobooks (row # rows) =
     (case make_entry row of
        Inl e \<Rightarrow> Inl e
      | Inr (key, b) \<Rightarrow> load_rows (dict_set audiobooks key b) rows)"

definition load_catalog :: "row list \<Rightarrow> error + (string \<times> book) list" where
  "load_catalog rows = load_rows [] rows"

fun find_loop :: "string \<Rightarrow> string \<Rightarrow> (string \<times> book) list \<Rightarrow> string option" where
  "find_loop clean_filename clean_parent [] = None"
| "find_loop clean_filename clean_parent ((key, book) # items) =
     (let clean_title = clean_string (title book);
          clean_author = clean_string (author book)
      in if str_in clean_title clean_filename \<and> str_in clean_author clean_parent then Some key
         else if str_in clean_title clean_filename then Some key
         else if str_in clean_author clean_parent \<and> str_in clean_title clean_filename then Some key
         else find_loop clean_filename clean_parent items)"

definition find_matching_audiobook :: "string \<Rightarrow> (string \<times> book) list \<Rightarrow> string option" where
  "find_matching_audiobook filepath audiobooks =
     (let filename = basename filepath;
          parent_dir = basename (dirname filepath);
          clean_filename = clean_string (Some filename);
          clean_parent = clean_string (Some parent_dir)
      in find_loop clean_filename clean_parent audiobooks)"


lemma startswith_iff: "startswith s p \<longleftrightarrow> (\<exists>t. s = p @ t)"
  by (induction s p rule: startswith.induct) auto

lemma str_in_iff: "str_in a b \<longleftrightarrow> (\<exists>p t. b = p @ a @ t)"
proof (induction b)
  case Nil
  then show ?case by simp
next
  case (Cons c b)
  show ?case
  proof
    assume "str_in a (c # b)"
    then show "\<exists>p t. c # b = p @ a @ t"
    proof (simp only: str_in.simps, elim disjE)
      assume "startswith (c # b) a"
      then obtain t where "c # b = a @ t" by (auto simp add: startswith_iff)
      then have "c # b = [] @ a @ t" by simp
      then show ?thesis by blast
    next
      assume "str_in a b"
      then obtain p t where "b = p @ a @ t" using Cons by blast
      then have "c # b = (c # p) @ a @ t" by simp
      then show ?thesis by blast
    qed
  next
    assume "\<exists>p t. c # b = p @ a @ t"
    then obtain p t where e: "c # b = p @ a @ t" by blast
    show "str_in a (c # b)"
    proof (cases p)
      case Nil
      with e have "\<exists>t. c # b = a @ t" by auto
      then have "startswith (c # b) a" by (simp only: startswith_iff)
      then show ?thesis by (simp only: str_in.simps simp_thms)
    next
      case (Cons x p')
      with e have "b = p' @ a @ t" by simp
      then show ?thesis using Cons.IH by auto
    qed
  qed
qed


lemma map_of_dict_set: "map_of (dict_set d k v) = (map_of d)(k \<mapsto> v)"
  by (induction d k v rule: dict_set.induct) (auto simp add: fun_eq_iff)

lemma fst_dict_set: "fst ` set (dict_set d k v) = insert k (fst ` set d)"
  by (induction d k v rule: dict_set.induct) auto

lemma distinct_dict_set: "distinct (map fst d) \<Longrightarrow> distinct (map fst (dict_set d k v))"
proof (induction d k v rule: dict_set.induct)
  case (1 k v)
  then show ?case by simp
next
  case (2 k' v' d k v)
  then show ?case using fst_dict_set [of d k v] by (auto simp del: fst_dict_set)
qed

lemma load_rows_distinct:
  "load_rows acc rows = Inr cat \<Longrightarrow> distinct (map fst acc) \<Longrightarrow> distinct (map fst cat)"
proof (induction rows arbitrary: acc)
  case Nil
  then show ?case by simp
next
  case (Cons r rows)
  then show ?case
    by (auto split: sum.splits dest: distinct_dict_set)
qed

lemma load_rows_append:
  "load_rows acc (xs @ ys) =
     (case load_rows acc xs of Inl e \<Rightarrow> Inl e | Inr mid \<Rightarrow> load_rows mid ys)"
  by (induction xs arbitrary: acc) (auto split: sum.splits)

lemma load_rows_keeps:
  "load_rows acc rows = Inr cat \<Longrightarrow>
   \<forall>r \<in> set rows. \<forall>b. make_entry r \<noteq> Inr (k, b) \<Longrightarrow>
   map_of cat k = map_of acc k"
proof (induction rows arbitrary: acc)
  case Nil
  then show ?case by simp
next
  case (Cons r rows)
  then show ?case
    by (auto split: sum.splits simp add: map_of_dict_set)
qed


section \<open>Claims on the resolver and the catalog\<close>

text \<open>The three conditions of the resolver, as the specification words them, for a file
  path and a catalog record.\<close>

definition title_in_filename :: "string \<Rightarrow> book \<Rightarrow> bool" where
  "title_in_filename filepath b =
     str_in (clean_string (title b)) (clean_string (Some (basename filepath)))"

definition author_in_parent :: "string \<Rightarrow> book \<Rightarrow> bool" where
  "author_in_parent filepath b =
     str_in (clean_string (author b)) (clean_string (Some (basename (dirname filepath))))"

definition strategy1 :: "string \<Rightarrow> book \<Rightarrow> bool" where
  "strategy1 filepath b = (title_in_filename filepath b \<and> author_in_parent filepath b)"

definition strategy2 :: "string \<Rightarrow> book \<Rightarrow> bool" where
  "strategy2 filepath b = title_in_filename filepath b"

definition strategy3 :: "string \<Rightarrow> book \<Rightarrow> bool" where
  "strategy3 filepath b = (author_in_parent filepath b \<and> title_in_filename filepath b)"

text \<open>A resolver that tests the title alone: the key of the first item, in the order of
  the dictionary, whose record has its clean title inside the clean file name.\<close>

definition resolve_title_only :: "string \<Rightarrow> (string \<times> book) list \<Rightarrow> string option" where
  "resolve_title_only filepath audiobooks =
     map_option fst (find (\<lambda>(key, b). strategy2 filepath b) audiobooks)"

definition the_hobbit :: book where
  "the_hobbit = \<lparr>title = Some ''The Hobbit'', author = Some ''J.R.R. Tolkien'',
     narrator = Some ''Rob Inglis'', series = Some [], series_order = Some []\<rparr>"

definition dune :: book where
  "dune = \<lparr>title = Some ''Dune'', author = Some ''Frank Herbert'',
     narrator = Some ''Simon Vance'', series = Some ''Dune Saga'', series_order = Some ''1''\<rparr>"

lemma find_loop_title_only:
  "find_loop (clean_string (Some (basename filepath)))
     (clean_string (Some (basename (dirname filepath)))) audiobooks
   = resolve_title_only filepath audiobooks"
  by (induction audiobooks)
     (auto simp add: resolve_title_only_def strategy2_def title_in_filename_def Let_def)

lemma find_Some_set: "find P xs = Some x \<Longrightarrow> x \<in> set xs \<and> P x"
  by (induction xs) (auto split: if_splits)

subsection \<open>Claim C1\<close>

text \<open>
  C1: on every file path and every catalog (a dictionary, so its keys are distinct),
  when \<open>find_matching_audiobook\<close> returns a key, the record stored under that key
  satisfies at least one of the three conditions; and when no record of the catalog
  satisfies any of them, it returns \<open>None\<close>.
\<close>

theorem find_matching_audiobook_sound:
  assumes "distinct (map fst audiobooks)"
  shows "(find_matching_audiobook filepath audiobooks = Some key \<longrightarrow>
            (\<exists>b. map_of audiobooks key = Some b
               \<and> (strategy1 filepath b \<or> strategy2 filepath b \<or> strategy3 filepath b)))
         \<and> ((\<forall>k b. map_of audiobooks k = Some b \<longrightarrow>
                \<not> (strategy1 filepath b \<or> strategy2 filepath b \<or> strategy3 filepath b))
             \<longrightarrow> find_matching_audiobook filepath audiobooks = None)"
proof -
  have eq: "find_matching_audiobook filepath audiobooks = resolve_title_only filepath audiobooks"
    by (simp add: find_matching_audiobook_def Let_def find_loop_title_only)
  have hit: "\<exists>b. map_of audiobooks key = Some b \<and> strategy2 filepath b"
    if "resolve_title_only filepath audiobooks = Some key"
  proof -
    from that obtain b where "find (\<lambda>(key, b). strategy2 filepath b) audiobooks = Some (key, b)"
      by (auto simp add: resolve_title_only_def)
    then have "(key, b) \<in> set audiobooks" and "strategy2 filepath b"
      using find_Some_set by fastforce+
    then show ?thesis using assms by auto
  qed
  have miss: "resolve_title_only filepath audiobooks = None"
    if "\<forall>k b. map_of audiobooks k = Some b \<longrightarrow> \<not> strategy2 filepath b"
  proof -
    have "\<forall>(k, b) \<in> set audiobooks. \<not> strategy2 filepath b"
      using that assms by auto
    then show ?thesis
      by (auto simp add: resolve_title_only_def find_None_iff)
  qed
  show ?thesis using eq hit miss by auto
qed

theorem find_matching_audiobook_sound_witness:
  "distinct (map fst [(''dune'', dune), (''the hobbit'', the_hobbit)])
   \<and> find_matching_audiobook ''/m/J.R.R. Tolkien/01 - The Hobbit.mp3''
        [(''dune'', dune), (''the hobbit'', the_hobbit)] = Some ''the hobbit''
   \<and> (\<exists>b. map_of [(''dune'', dune), (''the hobbit'', the_hobbit)] ''the hobbit'' = Some b
        \<and> (strategy1 ''/m/J.R.R. Tolkien/01 - The Hobbit.mp3'' b
           \<or> strategy2 ''/m/J.R.R. Tolkien/01 - The Hobbit.mp3'' b
           \<or> strategy3 ''/m/J.R.R. Tolkien/01 - The Hobbit.mp3'' b))
   \<and> find_matching_audiobook ''/m/Various/track 07.mp3''
        [(''dune'', dune), (''the hobbit'', the_hobbit)] = None"
proof -
  let ?cat = "[(''dune'', dune), (''the hobbit'', the_hobbit)]"
  have d: "distinct (map fst ?cat)" by simp
  have f: "find_matching_audiobook ''/m/J.R.R. Tolkien/01 - The Hobbit.mp3'' ?cat
             = Some ''the hobbit''"
    by code_simp
  have n: "find_matching_audiobook ''/m/Various/track 07.mp3'' ?cat = None"
    by code_simp
  show ?thesis
    using d f n
      find_matching_audiobook_sound [OF d, of "''/m/J.R.R. Tolkien/01 - The Hobbit.mp3''"
        "''the hobbit''"]
    by blast
qed

subsection \<open>Claim C10\<close>

text \<open>
  C10: on every file path and every catalog, \<open>find_matching_audiobook\<close> returns what the
  resolver that tests only the title returns, the key of the first record in the order of
  the catalog whose clean title is inside the clean file name; the first and the third
  condition each imply the second for the same record.
\<close>

theorem find_matching_audiobook_title_only:
  "find_matching_audiobook filepath audiobooks = resolve_title_only filepath audiobooks
   \<and> (strategy1 filepath b \<longrightarrow> strategy2 filepath b)
   \<and> (strategy3 filepath b \<longrightarrow> strategy2 filepath b)"
  by (simp add: find_matching_audiobook_def Let_def find_loop_title_only
      strategy1_def strategy2_def strategy3_def)

theorem find_matching_audiobook_title_only_witness:
  "strategy1 ''/m/J.R.R. Tolkien/01 - The Hobbit.mp3'' the_hobbit
   \<and> strategy3 ''/m/J.R.R. Tolkien/01 - The Hobbit.mp3'' the_hobbit
   \<and> strategy2 ''/m/J.R.R. Tolkien/01 - The Hobbit.mp3'' the_hobbit
   \<and> find_matching_audiobook ''/m/J.R.R. Tolkien/01 - The Hobbit.mp3''
        [(''dune'', dune), (''the hobbit'', the_hobbit)]
      = resolve_title_only ''/m/J.R.R. Tolkien/01 - The Hobbit.mp3''
          [(''dune'', dune), (''the hobbit'', the_hobbit)]"
proof -
  have s: "strategy1 ''/m/J.R.R. Tolkien/01 - The Hobbit.mp3'' the_hobbit" by code_simp
  have t: "strategy3 ''/m/J.R.R. Tolkien/01 - The Hobbit.mp3'' the_hobbit" by code_simp
  show ?thesis
    using s t
      find_matching_audiobook_title_only [of "''/m/J.R.R. Tolkien/01 - The Hobbit.mp3''"
        "[(''dune'', dune), (''the hobbit'', the_hobbit)]" the_hobbit]
    by blast
qed


lemma make_entry_key:
  "make_entry r = Inr (k, b) \<Longrightarrow> k = clean_string (title b)"
  by (auto simp add: make_entry_def split: sum.splits)

lemma map_of_unique:
  "distinct (map fst d) \<Longrightarrow> map_of d k = Some v \<Longrightarrow> (k, w) \<in> set d \<Longrightarrow> w = v"
  by (metis map_of_is_SomeI option.inject)

lemma load_rows_last:
  assumes "load_rows acc (xs @ r # zs) = Inr cat"
    and "make_entry r = Inr (k, b)"
    and "\<forall>r' \<in> set zs. \<forall>b'. make_entry r' \<noteq> Inr (k, b')"
  shows "map_of cat k = Some b"
proof -
  from assms(1) obtain mid where m: "load_rows acc xs = Inr mid"
    and r: "load_rows mid (r # zs) = Inr cat"
    by (auto simp add: load_rows_append split: sum.splits)
  from r assms(2) have "load_rows (dict_set mid k b) zs = Inr cat" by simp
  then have "map_of cat k = map_of (dict_set mid k b) k"
    using assms(3) by (rule load_rows_keeps)
  then show ?thesis by (simp add: map_of_dict_set)
qed

subsection \<open>Claim C9\<close>

definition hobbit_row :: row where
  "hobbit_row = [''Title'' \<mapsto> Some ''The Hobbit'', ''Authors'' \<mapsto> Some ''J.R.R. Tolkien'',
     ''Narrators'' \<mapsto> Some ''Rob Inglis'', ''Series Names'' \<mapsto> Some [],
     ''Series Order'' \<mapsto> Some []]"

definition dune_row :: row where
  "dune_row = [''Title'' \<mapsto> Some ''Dune'', ''Authors'' \<mapsto> Some ''Frank Herbert'',
     ''Narrators'' \<mapsto> Some ''Simon Vance'', ''Series Names'' \<mapsto> Some ''Dune Saga'',
     ''Series Order'' \<mapsto> Some ''1'']"

definition hobbit_row_again :: row where
  "hobbit_row_again = [''Title'' \<mapsto> Some ''the hobbit!'', ''Authors'' \<mapsto> Some ''Tolkien'',
     ''Narrators'' \<mapsto> Some ''Andy Serkis'', ''Series Names'' \<mapsto> Some [],
     ''Series Order'' \<mapsto> Some []]"

definition the_hobbit_again :: book where
  "the_hobbit_again = \<lparr>title = Some ''the hobbit!'', author = Some ''Tolkien'',
     narrator = Some ''Andy Serkis'', series = Some [], series_order = Some []\<rparr>"

text \<open>
  C9: when the catalog loads, and two of its rows give records whose titles normalize to
  the same key, the later of them being the last row with that key, then the two rows
  have one key, the dictionary maps it to the record of the later row, and no other
  record is stored under it.
\<close>

theorem load_catalog_last_write_wins:
  assumes "load_catalog (xs @ r1 # ys @ r2 # zs) = Inr cat"
    and "make_entry r1 = Inr (k1, b1)" and "make_entry r2 = Inr (k2, b2)"
    and "clean_string (title b1) = clean_string (title b2)"
    and "\<forall>r \<in> set zs. \<forall>b. make_entry r \<noteq> Inr (k2, b)"
  shows "k1 = k2 \<and> k2 = clean_string (title b2)
         \<and> map_of cat k2 = Some b2
         \<and> (\<forall>b. (k2, b) \<in> set cat \<longrightarrow> b = b2)"
proof -
  have l: "load_rows [] ((xs @ r1 # ys) @ r2 # zs) = Inr cat"
    using assms(1) by (simp add: load_catalog_def)
  have k: "k1 = k2" and k2: "k2 = clean_string (title b2)"
    using make_entry_key [OF assms(2)] make_entry_key [OF assms(3)] assms(4) by simp_all
  have m: "map_of cat k2 = Some b2"
    using l assms(3) assms(5) by (rule load_rows_last)
  have d: "distinct (map fst cat)"
    using l by (rule load_rows_distinct) simp
  have "\<forall>b. (k2, b) \<in> set cat \<longrightarrow> b = b2"
    using map_of_unique [OF d m] by blast
  then show ?thesis using k k2 m by simp
qed

theorem load_catalog_last_write_wins_witness:
  "load_catalog [hobbit_row, dune_row, hobbit_row_again]
     = Inr [(''the hobbit'', the_hobbit_again), (''dune'', dune)]
   \<and> make_entry hobbit_row = Inr (''the hobbit'', the_hobbit)
   \<and> make_entry hobbit_row_again = Inr (''the hobbit'', the_hobbit_again)
   \<and> map_of [(''the hobbit'', the_hobbit_again), (''dune'', dune)] ''the hobbit''
       = Some the_hobbit_again
   \<and> (''the hobbit'', the_hobbit) \<notin> set [(''the hobbit'', the_hobbit_again), (''dune'', dune)]"
proof -
  have l: "load_catalog ([] @ hobbit_row # [dune_row] @ hobbit_row_again # [])
             = Inr [(''the hobbit'', the_hobbit_again), (''dune'', dune)]"
    by code_simp
  have e1: "make_entry hobbit_row = Inr (''the hobbit'', the_hobbit)" by code_simp
  have e2: "make_entry hobbit_row_again = Inr (''the hobbit'', the_hobbit_again)" by code_simp
  have c: "clean_string (title the_hobbit) = clean_string (title the_hobbit_again)" by code_simp
  have z: "\<forall>r \<in> set []. \<forall>b. make_entry r \<noteq> Inr (''the hobbit'', b)" by simp
  have n: "the_hobbit \<noteq> the_hobbit_again"
    by (simp add: the_hobbit_def the_hobbit_again_def)
  show ?thesis
    using l e1 e2 n load_catalog_last_write_wins [OF l e1 e2 c z] by auto
qed


section \<open>Tags and files\<close>

text \<open>
  A frame of an ID3 tag. A text frame (\<open>TIT2\<close>, \<open>TPE1\<close>, \<open>TALB\<close>, ...) has its frame
  identifier, its encoding and its list of strings; every other frame (\<open>CHAP\<close>, \<open>CTOC\<close>,
  \<open>APIC\<close>, \<open>COMM\<close>, ...) is opaque: the key under which the tag stores it and its
  bytes. \<open>HashKey\<close> is the key of a frame in the tag.
\<close>

datatype frame =
    TextFrame string int "string list"
  | OpaqueFrame string string

fun HashKey :: "frame \<Rightarrow> string" where
  "HashKey (TextFrame fid enc txt) = fid"
| "HashKey (OpaqueFrame k bytes) = k"

text \<open>
  The tag container \<open>ID3\<close> of mutagen is a dictionary from \<open>HashKey\<close> to frame; it is
  modelled as the list of its frames in the order of the dictionary, no two with the same
  key. \<open>tags.add(frame)\<close> stores the frame under its key, in the place of a frame that
  has this key already. A container is false in a condition when it has no frame.
\<close>

type_synonym tags = "frame list"

fun add :: "tags \<Rightarrow> frame \<Rightarrow> tags" where
  "add [] f = [f]"
| "add (g # t) f = (if HashKey g = HashKey f then f # t else g # add t f)"

fun lookup :: "tags \<Rightarrow> string \<Rightarrow> frame option" where
  "lookup [] k = None"
| "lookup (g # t) k = (if HashKey g = k then Some g else lookup t k)"

definition keys :: "tags \<Rightarrow> string list" where
  "keys t = map HashKey t"

text \<open>
  What a file holds of a tag: no ID3 header (reading raises \<open>ID3NoHeaderError\<close>), a
  tag that cannot be read (another error of mutagen), or the frames written in it.
  Reading puts the frames into the dictionary one after the other, so of two frames with
  one key the later is kept, in the place of the earlier.
\<close>

datatype id3_state = NoHeader | Unreadable | Header "frame list"

definition load_frames :: "frame list \<Rightarrow> tags" where
  "load_frames frames = fold (\<lambda>f t. add t f) frames []"

text \<open>
  Saving writes no text frame whose text is empty, that is whose strings joined by the
  null character give the empty string: a text frame with no string or with the empty
  string alone. The order in which saving writes the frames is not modelled: a tag is
  read by key.
\<close>

fun empty_text :: "frame \<Rightarrow> bool" where
  "empty_text (TextFrame fid enc txt) = (txt = [] \<or> txt = [[]])"
| "empty_text (OpaqueFrame k bytes) = False"

definition written :: "tags \<Rightarrow> frame list" where
  "written t = filter (\<lambda>f. \<not> empty_text f) t"

text \<open>A file: its bytes, whether they hold MPEG audio, and its tag.\<close>

record mp3_file =
  content :: string
  mpeg :: bool
  id3 :: id3_state

text \<open>
  The file system: the files by path, the directories, and the paths at which the system
  refuses to create, write or delete (a permission or a device error). Paths are the
  strings the scripts build.
\<close>

record fs =
  files :: "(string \<times> mp3_file) list"
  dirs :: "string list"
  denied :: "string list"

definition isfile :: "fs \<Rightarrow> string \<Rightarrow> bool" where
  "isfile s p = (map_of (files s) p \<noteq> None)"

definition isdir :: "fs \<Rightarrow> string \<Rightarrow> bool" where
  "isdir s p = (p \<in> set (dirs s))"

text \<open>\<open>os.path.exists(p)\<close>\<close>

definition exists :: "fs \<Rightarrow> string \<Rightarrow> bool" where
  "exists s p = (isfile s p \<or> isdir s p)"

text \<open>\<open>os.makedirs(p, exist_ok=True)\<close>\<close>

definition makedirs :: "fs \<Rightarrow> string \<Rightarrow> error + fs" where
  "makedirs s p =
     (if isdir s p then Inr s
      else if isfile s p \<or> p \<in> set (denied s) then Inl (OSError p)
      else Inr (s\<lparr>dirs := dirs s @ [p]\<rparr>))"

text \<open>\<open>shutil.copy2(src, dst)\<close>: a destination that is a directory receives the file under
  its own name; the copy replaces a file that is at the destination.\<close>

definition copy2 :: "fs \<Rightarrow> string \<Rightarrow> string \<Rightarrow> error + fs" where
  "copy2 s src dst =
     (let dst = (if isdir s dst then path_join dst (basename src) else dst)
      in case map_of (files s) src of
           None \<Rightarrow> Inl (FileNotFoundError src)
         | Some f \<Rightarrow>
             if src = dst then Inl SameFileError
             else if dst \<in> set (denied s) \<or> isdir s dst then Inl (OSError dst)
             else Inr (s\<lparr>files := dict_set (files s) dst f\<rparr>))"

text \<open>\<open>ID3(path)\<close>: the container read from the file.\<close>

definition ID3_load :: "fs \<Rightarrow> string \<Rightarrow> error + tags" where
  "ID3_load s p =
     (case map_of (files s) p of
        None \<Rightarrow> Inl (FileNotFoundError p)
      | Some f \<Rightarrow>
          (case id3 f of
             NoHeader \<Rightarrow> Inl ID3NoHeaderError
           | Unreadable \<Rightarrow> Inl MutagenError
           | Header frames \<Rightarrow> Inr (load_frames frames)))"

text \<open>\<open>tags.save(path)\<close>: the tag of the file is replaced by the frames of the
  container that saving writes. Where there is no file, saving creates one that holds
  the tag and nothing else.\<close>

definition ID3_save :: "fs \<Rightarrow> string \<Rightarrow> tags \<Rightarrow> error + fs" where
  "ID3_save s p t =
     (case map_of (files s) p of
        None \<Rightarrow>
          if p \<in> set (denied s) \<or> isdir s p then Inl (OSError p)
          else Inr (s\<lparr>files := dict_set (files s) p
                                  \<lparr>content = [], mpeg = False, id3 = Header (written t)\<rparr>\<rparr>)
      | Some f \<Rightarrow>
          if p \<in> set (denied s) then Inl (OSError p)
          else Inr (s\<lparr>files := dict_set (files s) p (f\<lparr>id3 := Header (written t)\<rparr>)\<rparr>))"

text \<open>\<open>os.listdir(p)\<close>: the names of the entries whose path is \<open>p\<close>, a slash and a
  name, each once; the directories first, in the order of the model.\<close>

definition child_name :: "string \<Rightarrow> string \<Rightarrow> string option" where
  "child_name p q =
     (if basename q \<noteq> [] \<and> q = p @ ''/'' @ basename q then Some (basename q) else None)"

definition listdir :: "fs \<Rightarrow> string \<Rightarrow> error + string list" where
  "listdir s p =
     (if \<not> isdir s p then Inl (FileNotFoundError p)
      else if p \<in> set (denied s) then Inl (OSError p)
      else Inr (remdups (List.map_filter (child_name p) (dirs s)
                         @ List.map_filter (child_name p) (map fst (files s)))))"

text \<open>\<open>shutil.rmtree(p)\<close>: the directory goes with all that is under it. A removal that
  the system refuses is modelled as refused at the directory itself, before anything
  under it is deleted; a removal that fails part way is not modelled.\<close>

definition under :: "string \<Rightarrow> string \<Rightarrow> bool" where
  "under p q = (q = p \<or> startswith q (p @ ''/''))"

definition rmtree :: "fs \<Rightarrow> string \<Rightarrow> error + fs" where
  "rmtree s p =
     (if \<not> isdir s p then Inl (FileNotFoundError p)
      else if p \<in> set (denied s) then Inl (OSError p)
      else Inr (s\<lparr>files := filter (\<lambda>(q, f). \<not> under p q) (files s),
                  dirs := filter (\<lambda>q. \<not> under p q) (dirs s)\<rparr>))"


section \<open>The music library cleaner\<close>

text \<open>\<open>s.split(sep)\<close> with a separator of one character, \<open>s.strip()\<close> and
  \<open>s.replace(c, '')\<close>.\<close>

fun split_on :: "char \<Rightarrow> string \<Rightarrow> string list" where
  "split_on sep [] = [[]]"
| "split_on sep (c # cs) =
     (if c = sep then [] # split_on sep cs
      else (case split_on sep cs of [] \<Rightarrow> [[c]] | w # ws \<Rightarrow> (c # w) # ws))"

definition strip :: "string \<Rightarrow> string" where
  "strip s = rev (dropWhile isspace (rev (dropWhile isspace s)))"

definition remove_char :: "char \<Rightarrow> string \<Rightarrow> string" where
  "remove_char c s = filter (\<lambda>x. x \<noteq> c) s"

text \<open>The object \<open>MusicLibraryCleaner\<close> of \<^verbatim>\<open>delete-audiobooks-in-music-path.py\<close>: the
  fields its methods read and write.\<close>

record cleaner =
  music_path :: string
  authors_to_remove :: "string set"
  removed_folders :: "string list"
  skipped_folders :: "string list"

definition cleaner_init :: "string \<Rightarrow> cleaner" where
  "cleaner_init home =
     (let media_path = path_join (path_join (path_join home ''Music'') ''Music'') ''Media.localized''
      in \<lparr>music_path = path_join media_path ''Music'', authors_to_remove = {},
          removed_folders = [], skipped_folders = []\<rparr>)"

text \<open>The body of the loop over the names of one \<open>Authors\<close> field.\<close>

definition add_author :: "string \<Rightarrow> string set \<Rightarrow> string set" where
  "add_author a authors =
     (let clean_author = strip a
      in if clean_author \<noteq> []
         then insert (remove_char CHR '','' clean_author)
                (insert (remove_char CHR ''.'' clean_author)
                  (insert (lower clean_author) (insert clean_author authors)))
         else authors)"

text \<open>The loop over the rows: the object reached and the exception that ended the loop,
  if one did. A row without the column, or with \<open>None\<close> in it, raises; the names added
  by the rows before it stay in the set.\<close>

fun load_author_rows :: "cleaner \<Rightarrow> row list \<Rightarrow> cleaner \<times> error option" where
  "load_author_rows c [] = (c, None)"
| "load_author_rows c (row # rows) =
     (case getitem row ''Authors'' of
        Inl e \<Rightarrow> (c, Some e)
      | Inr None \<Rightarrow> (c, Some AttributeError)
      | Inr (Some a) \<Rightarrow>
          load_author_rows
            (c\<lparr>authors_to_remove := fold add_author (split_on CHR '','' a) (authors_to_remove c)\<rparr>)
            rows)"

text \<open>\<open>load_authors_from_csv\<close>: the CSV file is what \<open>open\<close> and \<open>csv.DictReader\<close>
  give, an error or its rows. Every exception is caught and gives \<open>False\<close>.\<close>

definition load_authors_from_csv :: "cleaner \<Rightarrow> error + row list \<Rightarrow> bool \<times> cleaner" where
  "load_authors_from_csv c csv_file =
     (case csv_file of
        Inl e \<Rightarrow> (False, c)
      | Inr rows \<Rightarrow>
          (case load_author_rows c rows of
             (c', Some e) \<Rightarrow> (False, c')
           | (c', None) \<Rightarrow> (True, c')))"

definition variations :: "string \<Rightarrow> string list" where
  "variations folder_name =
     (let folder_clean = strip folder_name;
          folder_lower = lower folder_clean
      in [folder_clean, folder_lower, remove_char CHR ''.'' folder_clean,
          remove_char CHR '','' folder_clean, sub_nonword folder_lower])"

definition should_remove_folder :: "cleaner \<Rightarrow> string \<Rightarrow> bool" where
  "should_remove_folder c folder_name =
     list_ex (\<lambda>var. var \<in> authors_to_remove c) (variations folder_name)"

definition scan_folders :: "cleaner \<Rightarrow> fs \<Rightarrow> (string \<times> string) list" where
  "scan_folders c s =
     (case listdir s (music_path c) of
        Inl e \<Rightarrow> []
      | Inr names \<Rightarrow>
          (let music_dirs = filter (\<lambda>d. isdir s (path_join (music_path c) d)) names
           in map (\<lambda>dir_name. (dir_name, path_join (music_path c) dir_name))
                (filter (should_remove_folder c) music_dirs)))"

fun remove_folders :: "cleaner \<times> fs \<Rightarrow> (string \<times> string) list \<Rightarrow> bool \<Rightarrow> cleaner \<times> fs" where
  "remove_folders (c, s) [] dry_run = (c, s)"
| "remove_folders (c, s) ((folder_name, folder_path) # rest) dry_run =
     (if dry_run
      then remove_folders (c\<lparr>removed_folders := removed_folders c @ [folder_path]\<rparr>, s) rest dry_run
      else (case rmtree s folder_path of
              Inr s' \<Rightarrow>
                remove_folders (c\<lparr>removed_folders := removed_folders c @ [folder_path]\<rparr>, s')
                  rest dry_run
            | Inl e \<Rightarrow>
                remove_folders (c\<lparr>skipped_folders := skipped_folders c @ [folder_path]\<rparr>, s)
                  rest dry_run))"




definition jane_row :: row where
  "jane_row = [''Title'' \<mapsto> Some ''A Book'', ''Authors'' \<mapsto> Some ''Jane Doe'',
     ''Narrators'' \<mapsto> Some [], ''Series Names'' \<mapsto> Some [], ''Series Order'' \<mapsto> Some []]"

lemma add_author_mono: "authors \<subseteq> add_author a authors"
  by (auto simp add: add_author_def Let_def)

lemma fold_add_author_mono: "authors \<subseteq> fold add_author names authors"
proof (induction names arbitrary: authors)
  case Nil
  then show ?case by simp
next
  case (Cons a names)
  have "authors \<subseteq> add_author a authors" by (rule add_author_mono)
  also have "\<dots> \<subseteq> fold add_author names (add_author a authors)" by (rule Cons.IH)
  finally show ?case by simp
qed

lemma add_author_variants:
  "strip a \<noteq> [] \<Longrightarrow>
   {strip a, lower (strip a), remove_char CHR ''.'' (strip a), remove_char CHR '','' (strip a)}
     \<subseteq> add_author a authors"
  by (simp add: add_author_def Let_def)

lemma fold_add_author_variants:
  "a \<in> set names \<Longrightarrow> strip a \<noteq> [] \<Longrightarrow>
   {strip a, lower (strip a), remove_char CHR ''.'' (strip a), remove_char CHR '','' (strip a)}
     \<subseteq> fold add_author names authors"
proof (induction names arbitrary: authors)
  case Nil
  then show ?case by simp
next
  case (Cons b names)
  show ?case
  proof (cases "a = b")
    case True
    have "{strip a, lower (strip a), remove_char CHR ''.'' (strip a),
           remove_char CHR '','' (strip a)} \<subseteq> add_author b authors"
      using True Cons.prems(2) add_author_variants by blast
    also have "\<dots> \<subseteq> fold add_author names (add_author b authors)"
      by (rule fold_add_author_mono)
    finally show ?thesis by simp
  next
    case False
    then have "a \<in> set names" using Cons.prems(1) by simp
    then show ?thesis using Cons.IH Cons.prems(2) by simp
  qed
qed

lemma load_author_rows_step:
  assumes "load_author_rows c (row # rows) = (c', r)"
  shows "(\<exists>a. getitem row ''Authors'' = Inr (Some a)
            \<and> load_author_rows
                 (c\<lparr>authors_to_remove :=
                      fold add_author (split_on CHR '','' a) (authors_to_remove c)\<rparr>)
                 rows = (c', r))
         \<or> (c' = c \<and> r \<noteq> None)"
proof (cases "getitem row ''Authors''")
  case (Inl e)
  with assms show ?thesis by auto
next
  case (Inr v)
  with assms show ?thesis by (cases v) auto
qed

lemma load_author_rows_mono:
  "load_author_rows c rows = (c', r) \<Longrightarrow> authors_to_remove c \<subseteq> authors_to_remove c'"
proof (induction rows arbitrary: c)
  case Nil
  then show ?case by simp
next
  case (Cons row rows)
  from load_author_rows_step [OF Cons.prems] show ?case
  proof
    assume "\<exists>a. getitem row ''Authors'' = Inr (Some a)
            \<and> load_author_rows
                 (c\<lparr>authors_to_remove :=
                      fold add_author (split_on CHR '','' a) (authors_to_remove c)\<rparr>)
                 rows = (c', r)"
    then obtain a where l: "load_author_rows
              (c\<lparr>authors_to_remove := fold add_author (split_on CHR '','' a) (authors_to_remove c)\<rparr>)
              rows = (c', r)"
      by blast
    have "authors_to_remove c \<subseteq> fold add_author (split_on CHR '','' a) (authors_to_remove c)"
      by (rule fold_add_author_mono)
    then show ?thesis using Cons.IH [OF l] by auto
  next
    assume "c' = c \<and> r \<noteq> None"
    then show ?thesis by simp
  qed
qed

lemma load_author_rows_variants:
  assumes "load_author_rows c rows = (c', None)"
    and "row \<in> set rows" and "row ''Authors'' = Some (Some a)"
    and "name \<in> set (split_on CHR '','' a)" and "strip name \<noteq> []"
  shows "{strip name, lower (strip name), remove_char CHR ''.'' (strip name),
          remove_char CHR '','' (strip name)} \<subseteq> authors_to_remove c'"
  using assms
proof (induction rows arbitrary: c)
  case Nil
  then show ?case by simp
next
  case (Cons r rows)
  from load_author_rows_step [OF Cons.prems(1)]
  obtain b where b: "getitem r ''Authors'' = Inr (Some b)"
    and l: "load_author_rows
              (c\<lparr>authors_to_remove := fold add_author (split_on CHR '','' b) (authors_to_remove c)\<rparr>)
              rows = (c', None)"
    by blast
  show ?case
  proof (cases "row = r")
    case True
    then have "b = a" using b Cons.prems(3) by (simp add: getitem_def)
    then have "{strip name, lower (strip name), remove_char CHR ''.'' (strip name),
                remove_char CHR '','' (strip name)}
               \<subseteq> fold add_author (split_on CHR '','' b) (authors_to_remove c)"
      using fold_add_author_variants Cons.prems(4,5) by blast
    then show ?thesis using load_author_rows_mono [OF l] by auto
  next
    case False
    then have "row \<in> set rows" using Cons.prems(2) by simp
    then show ?thesis using Cons.IH [OF l] Cons.prems(3,4,5) by blast
  qed
qed

lemma set_scan_folders:
  "listdir s (music_path c) = Inr names \<Longrightarrow>
   set (scan_folders c s) =
     {(d, path_join (music_path c) d) | d.
        d \<in> set names \<and> isdir s (path_join (music_path c) d) \<and> should_remove_folder c d}"
  by (auto simp add: scan_folders_def)



lemma load_jane_row: "load_author_rows (cleaner_init ''/h'') [jane_row]
             = ((cleaner_init ''/h'')\<lparr>authors_to_remove := {''Jane Doe'', ''jane doe''}\<rparr>, None)"
proof -
  have g: "getitem jane_row ''Authors'' = Inr (Some ''Jane Doe'')"
    by (simp add: getitem_def jane_row_def)
  have s: "split_on CHR '','' ''Jane Doe'' = [''Jane Doe'']" by simp
  have t: "strip ''Jane Doe'' = ''Jane Doe''" by code_simp
  have l: "lower ''Jane Doe'' = ''jane doe''" by code_simp
  have a: "add_author ''Jane Doe'' {} = {''Jane Doe'', ''jane doe''}"
    by (auto simp add: add_author_def t l remove_char_def Let_def)
  show ?thesis
    by (simp add: g s a cleaner_init_def Let_def)
qed


subsection \<open>Claim C6\<close>

text \<open>
  C6: when the authors load, every name of an \<open>Authors\<close> field (cut at the commas,
  trimmed, not empty) has its four variants in the set; a folder name is to be removed
  exactly when one of its five variations is a member of the set, and \<open>scan_folders\<close>
  selects exactly the directories of the music folder whose name is to be removed; with
  \<open>Jane Doe\<close> as the one author of the catalog, the folders \<open>Jane Doe\<close> and \<open>jane doe\<close>
  are to be removed and \<open>Jane Doeson\<close> is not.
\<close>

theorem author_variants_select_folders:
  "(load_authors_from_csv c (Inr rows) = (True, c') \<and> row \<in> set rows
      \<and> row ''Authors'' = Some (Some a) \<and> name \<in> set (split_on CHR '','' a) \<and> strip name \<noteq> []
     \<longrightarrow> strip name \<in> authors_to_remove c'
         \<and> lower (strip name) \<in> authors_to_remove c'
         \<and> remove_char CHR ''.'' (strip name) \<in> authors_to_remove c'
         \<and> remove_char CHR '','' (strip name) \<in> authors_to_remove c')
   \<and> (should_remove_folder c folder \<longleftrightarrow>
          strip folder \<in> authors_to_remove c
        \<or> lower (strip folder) \<in> authors_to_remove c
        \<or> remove_char CHR ''.'' (strip folder) \<in> authors_to_remove c
        \<or> remove_char CHR '','' (strip folder) \<in> authors_to_remove c
        \<or> sub_nonword (lower (strip folder)) \<in> authors_to_remove c)
   \<and> (listdir s (music_path c) = Inr names \<longrightarrow>
          set (scan_folders c s) =
            {(d, path_join (music_path c) d) | d.
               d \<in> set names \<and> isdir s (path_join (music_path c) d) \<and> should_remove_folder c d})
   \<and> (\<exists>j. load_authors_from_csv (cleaner_init ''/h'') (Inr [jane_row]) = (True, j)
          \<and> authors_to_remove j = {''Jane Doe'', ''jane doe''}
          \<and> should_remove_folder j ''Jane Doe''
          \<and> should_remove_folder j ''jane doe''
          \<and> \<not> should_remove_folder j ''Jane Doeson'')"
proof -
  have a: "load_authors_from_csv c (Inr rows) = (True, c') \<and> row \<in> set rows
      \<and> row ''Authors'' = Some (Some a) \<and> name \<in> set (split_on CHR '','' a) \<and> strip name \<noteq> []
     \<longrightarrow> strip name \<in> authors_to_remove c'
         \<and> lower (strip name) \<in> authors_to_remove c'
         \<and> remove_char CHR ''.'' (strip name) \<in> authors_to_remove c'
         \<and> remove_char CHR '','' (strip name) \<in> authors_to_remove c'"
  proof (intro impI, elim conjE)
    assume l: "load_authors_from_csv c (Inr rows) = (True, c')" and r: "row \<in> set rows"
      and f: "row ''Authors'' = Some (Some a)" and n: "name \<in> set (split_on CHR '','' a)"
      and e: "strip name \<noteq> []"
    from l have "load_author_rows c rows = (c', None)"
      by (cases "load_author_rows c rows")
         (auto simp add: load_authors_from_csv_def split: option.splits)
    then have "{strip name, lower (strip name), remove_char CHR ''.'' (strip name),
                remove_char CHR '','' (strip name)} \<subseteq> authors_to_remove c'"
      using r f n e by (rule load_author_rows_variants)
    then show "strip name \<in> authors_to_remove c'
         \<and> lower (strip name) \<in> authors_to_remove c'
         \<and> remove_char CHR ''.'' (strip name) \<in> authors_to_remove c'
         \<and> remove_char CHR '','' (strip name) \<in> authors_to_remove c'"
      by simp
  qed
  have b: "should_remove_folder c folder \<longleftrightarrow>
          strip folder \<in> authors_to_remove c
        \<or> lower (strip folder) \<in> authors_to_remove c
        \<or> remove_char CHR ''.'' (strip folder) \<in> authors_to_remove c
        \<or> remove_char CHR '','' (strip folder) \<in> authors_to_remove c
        \<or> sub_nonword (lower (strip folder)) \<in> authors_to_remove c"
    by (simp add: should_remove_folder_def variations_def Let_def)
  have sc: "listdir s (music_path c) = Inr names \<longrightarrow>
          set (scan_folders c s) =
            {(d, path_join (music_path c) d) | d.
               d \<in> set names \<and> isdir s (path_join (music_path c) d) \<and> should_remove_folder c d}"
    by (rule impI) (rule set_scan_folders)
  let ?j = "(cleaner_init ''/h'')\<lparr>authors_to_remove := {''Jane Doe'', ''jane doe''}\<rparr>"
  have j: "load_authors_from_csv (cleaner_init ''/h'') (Inr [jane_row]) = (True, ?j)"
    by (simp only: load_authors_from_csv_def load_jane_row sum.case prod.case option.case)
  have v1: "variations ''Jane Doe'' = [''Jane Doe'', ''jane doe'', ''Jane Doe'', ''Jane Doe'', ''jane doe'']"
    by code_simp
  have v2: "variations ''jane doe'' = [''jane doe'', ''jane doe'', ''jane doe'', ''jane doe'', ''jane doe'']"
    by code_simp
  have v3: "variations ''Jane Doeson''
              = [''Jane Doeson'', ''jane doeson'', ''Jane Doeson'', ''Jane Doeson'', ''jane doeson'']"
    by code_simp
  have d: "\<exists>j. load_authors_from_csv (cleaner_init ''/h'') (Inr [jane_row]) = (True, j)
          \<and> authors_to_remove j = {''Jane Doe'', ''jane doe''}
          \<and> should_remove_folder j ''Jane Doe''
          \<and> should_remove_folder j ''jane doe''
          \<and> \<not> should_remove_folder j ''Jane Doeson''"
  proof (intro exI [of _ ?j] conjI)
    show "load_authors_from_csv (cleaner_init ''/h'') (Inr [jane_row]) = (True, ?j)" by (rule j)
    show "authors_to_remove ?j = {''Jane Doe'', ''jane doe''}" by simp
    show "should_remove_folder ?j ''Jane Doe''" by (simp add: should_remove_folder_def v1)
    show "should_remove_folder ?j ''jane doe''" by (simp add: should_remove_folder_def v2)
    show "\<not> should_remove_folder ?j ''Jane Doeson''" by (simp add: should_remove_folder_def v3)
  qed
  from a b sc d show ?thesis by (intro conjI)
qed


theorem author_variants_select_folders_witness:
  "load_authors_from_csv (cleaner_init ''/h'') (Inr [jane_row])
     = (True, (cleaner_init ''/h'')\<lparr>authors_to_remove := {''Jane Doe'', ''jane doe''}\<rparr>)
   \<and> jane_row ''Authors'' = Some (Some ''Jane Doe'')
   \<and> ''Jane Doe'' \<in> set (split_on CHR '','' ''Jane Doe'')
   \<and> strip ''Jane Doe'' = ''Jane Doe''
   \<and> lower (strip ''Jane Doe'')
       \<in> authors_to_remove ((cleaner_init ''/h'')\<lparr>authors_to_remove := {''Jane Doe'', ''jane doe''}\<rparr>)
   \<and> remove_char CHR ''.'' (strip ''Jane Doe'')
       \<in> authors_to_remove ((cleaner_init ''/h'')\<lparr>authors_to_remove := {''Jane Doe'', ''jane doe''}\<rparr>)"
proof -
  let ?j = "(cleaner_init ''/h'')\<lparr>authors_to_remove := {''Jane Doe'', ''jane doe''}\<rparr>"
  have j: "load_authors_from_csv (cleaner_init ''/h'') (Inr [jane_row]) = (True, ?j)"
    by (simp only: load_authors_from_csv_def load_jane_row sum.case prod.case option.case)
  have r: "jane_row ''Authors'' = Some (Some ''Jane Doe'')" by (simp add: jane_row_def)
  have n: "''Jane Doe'' \<in> set (split_on CHR '','' ''Jane Doe'')" by simp
  have t: "strip ''Jane Doe'' = ''Jane Doe''" by code_simp
  have e: "strip ''Jane Doe'' \<noteq> []" by (simp add: t)
  have m: "jane_row \<in> set [jane_row]" by simp
  show ?thesis
    using j r n t e m
      author_variants_select_folders [of "cleaner_init ''/h''" "[jane_row]" ?j jane_row
        "''Jane Doe''" "''Jane Doe''"]
    by blast
qed



lemma remove_folders_append:
  "remove_folders (c, s) (f1 @ f2) d
     = (case remove_folders (c, s) f1 d of (c1, s1) \<Rightarrow> remove_folders (c1, s1) f2 d)"
  by (induction f1 arbitrary: c s) (auto split: sum.splits)




















subsection \<open>Claim C7\<close>





section \<open>The metadata update of \<^verbatim>\<open>liberate-update-metadata.py\<close>\<close>

text \<open>
  \<open>audio[key] = value\<close> on an \<open>EasyID3\<close>: the key names a text frame (\<open>title\<close> is
  \<open>TIT2\<close>, \<open>artist\<close> \<open>TPE1\<close>, \<open>albumartist\<close> \<open>TPE2\<close>, \<open>album\<close> \<open>TALB\<close>, \<open>genre\<close>
  \<open>TCON\<close>, \<open>composer\<close> \<open>TCOM\<close>), which takes the encoding 3 and the string as its
  text, in the place of a frame with that identifier or as a new frame. A value that is
  \<open>None\<close> raises.
\<close>

definition easy_set :: "tags \<Rightarrow> string \<Rightarrow> string option \<Rightarrow> error + tags" where
  "easy_set t fid v =
     (case v of None \<Rightarrow> Inl TypeError | Some x \<Rightarrow> Inr (add t (TextFrame fid 3 [x])))"

text \<open>Sequencing of steps that may raise.\<close>

definition and_then :: "error + 'a \<Rightarrow> ('a \<Rightarrow> error + 'b) \<Rightarrow> error + 'b" where
  "and_then r f = (case r of Inl e \<Rightarrow> Inl e | Inr x \<Rightarrow> f x)"

text \<open>
  Lines 124 to 131: the tag of the copy is opened. For a file with no ID3 header the
  object comes from \<open>mutagen.File\<close>: when the file holds MPEG audio it is an object with
  no tag yet, so the fields are set on an empty container; when it does not,
  \<open>mutagen.File\<close> raises.
\<close>

definition open_easy :: "fs \<Rightarrow> string \<Rightarrow> error + tags" where
  "open_easy s new_filepath =
     (case ID3_load s new_filepath of
        Inr t \<Rightarrow> Inr t
      | Inl ID3NoHeaderError \<Rightarrow>
          (case map_of (files s) new_filepath of
             None \<Rightarrow> Inl (FileNotFoundError new_filepath)
           | Some f \<Rightarrow> if mpeg f then Inr [] else Inl MutagenError)
      | Inl e \<Rightarrow> Inl e)"

text \<open>A value inside an f-string: \<open>None\<close> prints as \<open>None\<close>.\<close>

definition format :: "string option \<Rightarrow> string" where
  "format v = (case v of None \<Rightarrow> ''None'' | Some x \<Rightarrow> x)"

text \<open>Lines 132 to 142: the fields set through \<open>EasyID3\<close>.\<close>

definition set_basic :: "tags \<Rightarrow> book \<Rightarrow> error + tags" where
  "set_basic audio b =
     and_then (easy_set audio ''TIT2'' (title b)) (\<lambda>audio.
     and_then (easy_set audio ''TPE1'' (author b)) (\<lambda>audio.
     and_then (easy_set audio ''TPE2'' (narrator b)) (\<lambda>audio.
     and_then (easy_set audio ''TALB'' (title b)) (\<lambda>audio.
     and_then (easy_set audio ''TCON'' (Some ''Audiobook'')) (\<lambda>audio.
     and_then (easy_set audio ''TCOM'' (narrator b)) (\<lambda>audio.
       (case series b of
          None \<Rightarrow> Inr audio
        | Some sr \<Rightarrow>
            if sr = [] then Inr audio
            else easy_set audio ''TALB'' (Some (sr @ '' - '' @ format (title b))))))))))"

text \<open>Lines 147 to 150: the two frames added through \<open>ID3\<close>.\<close>

definition set_additional :: "tags \<Rightarrow> tags" where
  "set_additional audio_full =
     add (add audio_full (TextFrame ''TMED'' 3 [''Audiobook''])) (TextFrame ''TCMP'' 3 [''1''])"

text \<open>
  Lines 124 to 151 on the file system: open, set, save, read again, add, save. The
  result is the file system reached and, when a step raised, the exception.
\<close>

definition update_metadata :: "fs \<Rightarrow> string \<Rightarrow> book \<Rightarrow> fs \<times> error option" where
  "update_metadata s new_filepath b =
     (case and_then (open_easy s new_filepath) (\<lambda>audio. set_basic audio b) of
        Inl e \<Rightarrow> (s, Some e)
      | Inr audio \<Rightarrow>
          (case ID3_save s new_filepath audio of
             Inl e \<Rightarrow> (s, Some e)
           | Inr s1 \<Rightarrow>
               (case ID3_load s1 new_filepath of
                  Inl e \<Rightarrow> (s1, Some e)
                | Inr audio_full \<Rightarrow>
                    (case ID3_save s1 new_filepath (set_additional audio_full) of
                       Inl e \<Rightarrow> (s1, Some e)
                     | Inr s2 \<Rightarrow> (s2, None)))))"

text \<open>
  The body of the \<open>try\<close> for one file, lines 95 to 157. \<open>if book_key\<close> is false for
  \<open>None\<close> and for the empty key. The result is the file system reached and either the
  exception raised or whether the file was processed (\<open>True\<close>) or had no match.
\<close>

definition try_file ::
  "fs \<Rightarrow> (string \<times> book) list \<Rightarrow> string \<Rightarrow> string \<Rightarrow> string \<Rightarrow> fs \<times> (error + bool)" where
  "try_file s audiobooks audiobooks_dir filepath file =
     (case find_matching_audiobook filepath audiobooks of
        None \<Rightarrow> (s, Inr False)
      | Some book_key \<Rightarrow>
          if book_key = [] then (s, Inr False)
          else (case map_of audiobooks book_key of
                  None \<Rightarrow> (s, Inl (KeyError book_key))
                | Some b \<Rightarrow>
                    (case author b of
                       None \<Rightarrow> (s, Inl TypeError)
                     | Some a \<Rightarrow>
                         (let author_dir = path_join audiobooks_dir a
                          in case makedirs s author_dir of
                               Inl e \<Rightarrow> (s, Inl e)
                             | Inr s1 \<Rightarrow>
                                 (case title b of
                                    None \<Rightarrow> (s1, Inl TypeError)
                                  | Some t \<Rightarrow>
                                      (let book_dir = path_join author_dir t;
                                           new_filepath = path_join book_dir file
                                       in case makedirs s1 book_dir of
                                            Inl e \<Rightarrow> (s1, Inl e)
                                          | Inr s2 \<Rightarrow>
                                              (case copy2 s2 filepath new_filepath of
                                                 Inl e \<Rightarrow> (s2, Inl e)
                                               | Inr s3 \<Rightarrow>
                                                   (case update_metadata s3 new_filepath b of
                                                      (s4, Some e) \<Rightarrow> (s4, Inl e)
                                                    | (s4, None) \<Rightarrow> (s4, Inr True)))))))))"

text \<open>
  One file of the walk, lines 92 to 161, on the file system and the two lists
  \<open>processed_files\<close> and \<open>skipped_files\<close>.
\<close>

definition process_file ::
  "(string \<times> book) list \<Rightarrow> string \<Rightarrow> string \<Rightarrow> string
     \<Rightarrow> fs \<times> string list \<times> string list \<Rightarrow> fs \<times> string list \<times> string list" where
  "process_file audiobooks audiobooks_dir root file st =
     (case st of (s, processed_files, skipped_files) \<Rightarrow>
        if endswith (lower file) ''.mp3''
        then (let filepath = path_join root file
              in case try_file s audiobooks audiobooks_dir filepath file of
                   (s', Inr True) \<Rightarrow> (s', processed_files @ [file], skipped_files)
                 | (s', Inr False) \<Rightarrow> (s', processed_files, skipped_files @ [file])
                 | (s', Inl e) \<Rightarrow> (s', processed_files, skipped_files @ [file]))
        else (s, processed_files, skipped_files))"

text \<open>The two loops over what \<open>os.walk\<close> yields: each directory with its file names.\<close>

definition process_walk ::
  "(string \<times> book) list \<Rightarrow> string \<Rightarrow> (string \<times> string list) list
     \<Rightarrow> fs \<times> string list \<times> string list \<Rightarrow> fs \<times> string list \<times> string list" where
  "process_walk audiobooks audiobooks_dir walk st =
     fold (\<lambda>(root, files) st. fold (process_file audiobooks audiobooks_dir root) files st) walk st"

text \<open>
  \<open>process_audiobooks\<close>: the catalog is read (an exception there ends the run), the
  output directory is made, the walk runs. The CSV file is what \<open>open\<close> and
  \<open>csv.DictReader\<close> give, the walk what \<open>os.walk(music_path)\<close> yields.
\<close>

definition process_audiobooks ::
  "error + row list \<Rightarrow> string \<Rightarrow> fs \<Rightarrow> (string \<times> string list) list
     \<Rightarrow> error + fs \<times> string list \<times> string list" where
  "process_audiobooks csv_file apple_music_path s walk =
     and_then csv_file (\<lambda>rows.
     and_then (load_catalog rows) (\<lambda>audiobooks.
       (let audiobooks_dir = path_join apple_music_path ''Audiobooks''
        in and_then (makedirs s audiobooks_dir) (\<lambda>s.
             Inr (process_walk audiobooks audiobooks_dir walk (s, [], []))))))"

subsection \<open>Tags saved and read again\<close>

lemma lookup_add: "lookup (add t f) k = (if k = HashKey f then Some f else lookup t k)"
  by (induction t) auto

lemma lookup_HashKey: "lookup t k = Some f \<Longrightarrow> HashKey f = k"
  by (induction t) (auto split: if_splits)

lemma lookup_None_keys: "lookup t k = None \<longleftrightarrow> k \<notin> set (keys t)"
  by (induction t) (auto simp add: keys_def)

lemma set_keys_add: "set (keys (add t f)) = insert (HashKey f) (set (keys t))"
  by (induction t) (auto simp add: keys_def)

lemma distinct_keys_add: "distinct (keys t) \<Longrightarrow> distinct (keys (add t f))"
proof (induction t)
  case Nil
  then show ?case by (simp add: keys_def)
next
  case (Cons g t)
  then have d: "distinct (keys (add t f))" and n: "HashKey g \<notin> set (keys t)"
    by (simp_all add: keys_def)
  show ?case
  proof (cases "HashKey g = HashKey f")
    case True
    then show ?thesis using Cons.prems by (simp add: keys_def)
  next
    case False
    have "HashKey g \<notin> set (keys (add t f))" using n False by (simp add: set_keys_add)
    then show ?thesis using d False by (simp add: keys_def)
  qed
qed

lemma distinct_keys_fold_add:
  "distinct (keys acc) \<Longrightarrow> distinct (keys (fold (\<lambda>f t. add t f) frames acc))"
  by (induction frames arbitrary: acc) (simp_all add: distinct_keys_add)

lemma distinct_keys_load_frames: "distinct (keys (load_frames frames))"
  using distinct_keys_fold_add [of "[]" frames] by (simp add: load_frames_def keys_def)

lemma add_new: "HashKey f \<notin> set (keys t) \<Longrightarrow> add t f = t @ [f]"
  by (induction t) (auto simp add: keys_def)

lemma fold_add_distinct:
  "distinct (keys (acc @ t)) \<Longrightarrow> fold (\<lambda>f t. add t f) t acc = acc @ t"
proof (induction t arbitrary: acc)
  case Nil
  then show ?case by simp
next
  case (Cons f t)
  then have n: "HashKey f \<notin> set (keys acc)" by (auto simp add: keys_def)
  have "distinct (keys ((acc @ [f]) @ t))" using Cons.prems by simp
  from Cons.IH [OF this] show ?case using n by (simp add: add_new)
qed

lemma load_frames_distinct: "distinct (keys t) \<Longrightarrow> load_frames t = t"
  using fold_add_distinct [of "[]" t] by (simp add: load_frames_def)

lemma set_keys_written: "set (keys (written t)) \<subseteq> set (keys t)"
  by (auto simp add: keys_def written_def)

lemma distinct_keys_written: "distinct (keys t) \<Longrightarrow> distinct (keys (written t))"
  by (simp add: keys_def written_def distinct_map_filter)

text \<open>The frames read from a saved container: those of the container whose text is not
  empty.\<close>

lemma lookup_written:
  "distinct (keys t) \<Longrightarrow>
   lookup (written t) k
   = (case lookup t k of None \<Rightarrow> None | Some f \<Rightarrow> if empty_text f then None else Some f)"
proof (induction t)
  case Nil
  then show ?case by (simp add: written_def)
next
  case (Cons g t)
  then have n: "HashKey g \<notin> set (keys t)" and d: "distinct (keys t)"
    by (simp_all add: keys_def)
  have w: "written (g # t) = (if empty_text g then written t else g # written t)"
    by (simp add: written_def)
  show ?case
  proof (cases "HashKey g = k")
    case True
    have "k \<notin> set (keys (written t))" using n True set_keys_written by blast
    then have "lookup (written t) k = None" by (simp add: lookup_None_keys)
    then show ?thesis using True w by simp
  next
    case False
    then show ?thesis using Cons.IH [OF d] w by simp
  qed
qed

lemma ID3_load_save:
  assumes "ID3_save s p t = Inr s'" and "distinct (keys t)"
  shows "ID3_load s' p = Inr (written t)"
proof -
  have "load_frames (written t) = written t"
    using assms(2) by (simp add: load_frames_distinct distinct_keys_written)
  then show ?thesis
    using assms(1)
    by (auto simp add: ID3_save_def ID3_load_def map_of_dict_set split: option.splits if_splits)
qed

lemma ID3_load_distinct: "ID3_load s p = Inr t \<Longrightarrow> distinct (keys t)"
  by (auto simp add: ID3_load_def distinct_keys_load_frames
      split: option.splits id3_state.splits)

lemma open_easy_distinct: "open_easy s p = Inr t \<Longrightarrow> distinct (keys t)"
  by (auto simp add: open_easy_def keys_def dest: ID3_load_distinct
      split: sum.splits error.splits option.splits if_splits)

text \<open>The album string: the title, or the series, a dash and the title.\<close>

definition album_text :: "book \<Rightarrow> string \<Rightarrow> string" where
  "album_text b ti =
     (case series b of None \<Rightarrow> ti | Some sr \<Rightarrow> if sr = [] then ti else sr @ '' - '' @ ti)"

text \<open>What \<open>set_basic\<close> builds when the three fields are strings.\<close>

definition basic_tags :: "tags \<Rightarrow> book \<Rightarrow> string \<Rightarrow> string \<Rightarrow> string \<Rightarrow> tags" where
  "basic_tags audio b ti au na =
     (let t = add (add (add (add (add (add audio (TextFrame ''TIT2'' 3 [ti]))
                (TextFrame ''TPE1'' 3 [au])) (TextFrame ''TPE2'' 3 [na]))
                (TextFrame ''TALB'' 3 [ti])) (TextFrame ''TCON'' 3 [''Audiobook'']))
                (TextFrame ''TCOM'' 3 [na])
      in if album_text b ti = ti then t else add t (TextFrame ''TALB'' 3 [album_text b ti]))"

lemma set_basic_Inr:
  assumes "set_basic audio b = Inr t"
  shows "\<exists>ti au na. title b = Some ti \<and> author b = Some au \<and> narrator b = Some na
           \<and> t = basic_tags audio b ti au na"
proof -
  from assms obtain ti where ti: "title b = Some ti"
    by (cases "title b") (simp_all add: set_basic_def and_then_def easy_set_def)
  from assms ti obtain au where au: "author b = Some au"
    by (cases "author b") (simp_all add: set_basic_def and_then_def easy_set_def)
  from assms ti au obtain na where na: "narrator b = Some na"
    by (cases "narrator b") (simp_all add: set_basic_def and_then_def easy_set_def)
  have "t = basic_tags audio b ti au na"
  proof (cases "series b")
    case None
    with assms ti au na show ?thesis
      by (simp add: set_basic_def and_then_def easy_set_def basic_tags_def album_text_def)
  next
    case (Some sr)
    show ?thesis
    proof (cases "sr = []")
      case True
      with Some assms ti au na show ?thesis
        by (simp add: set_basic_def and_then_def easy_set_def basic_tags_def album_text_def)
    next
      case False
      with Some assms ti au na show ?thesis
        by (simp add: set_basic_def and_then_def easy_set_def basic_tags_def album_text_def
            format_def Let_def)
    qed
  qed
  then show ?thesis using ti au na by blast
qed


lemma lookup_basic_tags_other:
  "k \<notin> {''TIT2'', ''TPE1'', ''TPE2'', ''TALB'', ''TCON'', ''TCOM''} \<Longrightarrow>
   lookup (basic_tags audio b ti au na) k = lookup audio k"
  by (simp add: basic_tags_def Let_def lookup_add)

lemma distinct_basic_tags:
  "distinct (keys audio) \<Longrightarrow> distinct (keys (basic_tags audio b ti au na))"
  by (simp add: basic_tags_def Let_def distinct_keys_add)


lemma lookup_set_additional:
  "lookup (set_additional t) k =
     (if k = ''TCMP'' then Some (TextFrame ''TCMP'' 3 [''1''])
      else if k = ''TMED'' then Some (TextFrame ''TMED'' 3 [''Audiobook''])
      else lookup t k)"
  by (simp add: set_additional_def lookup_add)

lemma distinct_set_additional:
  "distinct (keys t) \<Longrightarrow> distinct (keys (set_additional t))"
  by (simp add: set_additional_def distinct_keys_add)

text \<open>What is read again of the frame saved under a key: nothing of a text frame whose
  text is empty.\<close>

definition kept :: "frame option \<Rightarrow> frame option" where
  "kept r = (case r of None \<Rightarrow> None | Some f \<Rightarrow> if empty_text f then None else Some f)"

lemma kept_kept: "kept (kept r) = kept r"
  by (cases r) (simp_all add: kept_def)

lemma lookup_written_kept: "distinct (keys t) \<Longrightarrow> lookup (written t) k = kept (lookup t k)"
  by (simp add: lookup_written kept_def)

lemma update_metadata_None:
  assumes "update_metadata s p b = (s', None)"
  shows "\<exists>t0 ti au na. open_easy s p = Inr t0
           \<and> title b = Some ti \<and> author b = Some au \<and> narrator b = Some na
           \<and> distinct (keys (set_additional (written (basic_tags t0 b ti au na))))
           \<and> ID3_load s' p = Inr (written (set_additional (written (basic_tags t0 b ti au na))))"
proof -
  from assms obtain t0 where t0: "open_easy s p = Inr t0"
    by (cases "open_easy s p") (auto simp add: update_metadata_def and_then_def)
  from assms t0 obtain t1 where t1: "set_basic t0 b = Inr t1"
    by (cases "set_basic t0 b") (auto simp add: update_metadata_def and_then_def)
  from set_basic_Inr [OF t1] obtain ti au na where f: "title b = Some ti"
    "author b = Some au" "narrator b = Some na" and e: "t1 = basic_tags t0 b ti au na"
    by blast
  have d1: "distinct (keys t1)"
    unfolding e using open_easy_distinct [OF t0] by (rule distinct_basic_tags)
  from assms t0 t1 obtain s1 where s1: "ID3_save s p t1 = Inr s1"
    by (cases "ID3_save s p t1") (auto simp add: update_metadata_def and_then_def)
  have l1: "ID3_load s1 p = Inr (written t1)" using s1 d1 by (rule ID3_load_save)
  have d2: "distinct (keys (set_additional (written t1)))"
    using d1 by (simp add: distinct_set_additional distinct_keys_written)
  from assms t0 t1 s1 l1 have s2: "ID3_save s1 p (set_additional (written t1)) = Inr s'"
    by (cases "ID3_save s1 p (set_additional (written t1))")
       (auto simp add: update_metadata_def and_then_def)
  then have "ID3_load s' p = Inr (written (set_additional (written t1)))"
    using d2 by (rule ID3_load_save)
  then show ?thesis using t0 f d2 unfolding e by blast
qed

lemma lookup_updated:
  assumes "distinct (keys t0)"
  shows "lookup (written (set_additional (written (basic_tags t0 b ti au na)))) k =
     (if k = ''TCMP'' then Some (TextFrame ''TCMP'' 3 [''1''])
      else if k = ''TMED'' then Some (TextFrame ''TMED'' 3 [''Audiobook''])
      else kept (lookup (basic_tags t0 b ti au na) k))"
proof -
  have d1: "distinct (keys (basic_tags t0 b ti au na))"
    using assms by (rule distinct_basic_tags)
  have d2: "distinct (keys (set_additional (written (basic_tags t0 b ti au na))))"
    using d1 by (simp add: distinct_set_additional distinct_keys_written)
  show ?thesis
    by (simp add: lookup_written_kept [OF d2] lookup_set_additional
        lookup_written_kept [OF d1] kept_kept)
       (simp add: kept_def)
qed




lemma album_text_empty: "album_text b ti = [] \<longleftrightarrow> ti = [] \<and> (series b = None \<or> series b = Some [])"
  by (cases "series b") (auto simp add: album_text_def)


subsection \<open>Claim C4\<close>






subsection \<open>Claim C8\<close>







definition lib_fs :: fs where
  "lib_fs =
     \<lparr>files = [(''/m/Music/J.R.R. Tolkien/01 - The Hobbit.mp3'',
                 \<lparr>content = ''a'', mpeg = True,
                  id3 = Header [OpaqueFrame ''CHAP:ch0'' ''c0'', TextFrame ''TIT2'' 1 [''old''],
                                OpaqueFrame ''APIC:'' ''png'']\<rparr>),
                (''/m/Music/Other/01 - The Hobbit.mp3'', \<lparr>content = ''b'', mpeg = True, id3 = NoHeader\<rparr>),
                (''/m/Music/Other/dune part 1.MP3'', \<lparr>content = ''c'', mpeg = True, id3 = Unreadable\<rparr>)],
      dirs = [''/m'', ''/m/Music'', ''/m/Music/J.R.R. Tolkien'', ''/m/Music/Other'',
              ''/m/Audiobooks''],
      denied = []\<rparr>"






section \<open>The audiobook processor of \<^verbatim>\<open>audiobooks-update-metadata-from-mp3.py\<close>\<close>

text \<open>\<open>str(n)\<close> for a counter: its decimal digits.\<close>

definition digit :: "nat \<Rightarrow> char" where
  "digit n = char_of (48 + n)"

function str_nat :: "nat \<Rightarrow> string" where
  "str_nat n = (if n < 10 then [digit n] else str_nat (n div 10) @ [digit (n mod 10)])"
  by pat_completeness auto
termination
  by (relation "measure id") auto

declare str_nat.simps [simp del]

text \<open>
  \<open>os.path.splitext(p)\<close>: the extension starts at the last dot of the last component,
  unless only dots stand before it in that component.
\<close>

definition splitext :: "string \<Rightarrow> string \<times> string" where
  "splitext p =
     (let name = basename p;
          ext = rev (takeWhile (\<lambda>c. c \<noteq> CHR ''.'') (rev name));
          stem = rev (drop 1 (dropWhile (\<lambda>c. c \<noteq> CHR ''.'') (rev name)))
      in if CHR ''.'' \<in> set name \<and> (\<exists>c \<in> set stem. c \<noteq> CHR ''.'')
         then (head_part p @ stem, CHR ''.'' # ext)
         else (p, []))"

text \<open>Line 116: the name tried for a counter.\<close>

definition candidate :: "string \<Rightarrow> string \<Rightarrow> nat \<Rightarrow> string" where
  "candidate book_dir filename counter =
     (case splitext filename of
        (base, ext) \<Rightarrow> path_join book_dir (base @ ''_'' @ str_nat counter @ ext))"

lemma of_char_digit: "n < 10 \<Longrightarrow> of_char (digit n) = 48 + n"
  by (simp add: digit_def)

lemma digit_inj: "m < 10 \<Longrightarrow> n < 10 \<Longrightarrow> digit m = digit n \<Longrightarrow> m = n"
  by (metis of_char_digit add_left_cancel)

lemma str_nat_small: "n < 10 \<Longrightarrow> str_nat n = [digit n]"
  by (simp add: str_nat.simps)

lemma str_nat_big: "\<not> n < 10 \<Longrightarrow> str_nat n = str_nat (n div 10) @ [digit (n mod 10)]"
  by (subst str_nat.simps) simp

lemma str_nat_not_Nil: "str_nat n \<noteq> []"
  by (cases "n < 10") (simp_all add: str_nat_small str_nat_big)

lemma str_nat_inj: "str_nat m = str_nat n \<Longrightarrow> m = n"
proof (induction m arbitrary: n rule: str_nat.induct)
  case (1 m)
  show ?case
  proof (cases "m < 10")
    case True
    note m = True
    show ?thesis
    proof (cases "n < 10")
      case True
      with m "1.prems" show ?thesis by (simp add: str_nat_small digit_inj)
    next
      case False
      with m "1.prems" show ?thesis
        using str_nat_not_Nil [of "n div 10"] by (simp add: str_nat_small str_nat_big)
    qed
  next
    case False
    note m = False
    show ?thesis
    proof (cases "n < 10")
      case True
      with m "1.prems" show ?thesis
        using str_nat_not_Nil [of "m div 10"] by (simp add: str_nat_small str_nat_big)
    next
      case False
      with m "1.prems" have e: "str_nat (m div 10) = str_nat (n div 10)"
        and d: "digit (m mod 10) = digit (n mod 10)"
        by (simp_all add: str_nat_big)
      have "m div 10 = n div 10" using "1.IH" [OF m e] .
      moreover have "m mod 10 = n mod 10" using d by (intro digit_inj) simp_all
      ultimately show ?thesis by (metis div_mult_mod_eq)
    qed
  qed
qed

lemma startswith_slash: "startswith x ''/'' \<longleftrightarrow> (x \<noteq> [] \<and> hd x = CHR ''/'')"
  by (cases x) auto

lemma path_join_inj:
  assumes "path_join d (b @ CHR ''_'' # x @ e) = path_join d (b @ CHR ''_'' # y @ e)"
  shows "x = y"
proof -
  have "startswith (b @ CHR ''_'' # x @ e) ''/'' = startswith (b @ CHR ''_'' # y @ e) ''/''"
    by (cases b) (simp_all add: startswith_slash)
  then have "b @ CHR ''_'' # x @ e = b @ CHR ''_'' # y @ e"
    using assms by (auto simp add: path_join_def split: if_splits)
  then show ?thesis by simp
qed

lemma candidate_inj: "candidate d f j = candidate d f k \<Longrightarrow> j = k"
proof -
  assume c: "candidate d f j = candidate d f k"
  obtain base ext where sp: "splitext f = (base, ext)" by (cases "splitext f")
  from c sp have "path_join d (base @ CHR ''_'' # str_nat j @ ext)
                  = path_join d (base @ CHR ''_'' # str_nat k @ ext)"
    by (simp add: candidate_def)
  then have "str_nat j = str_nat k" by (rule path_join_inj)
  then show "j = k" by (rule str_nat_inj)
qed

lemma finite_existing: "finite {p. exists s p}"
proof -
  have "{p. exists s p} \<subseteq> fst ` set (files s) \<union> set (dirs s)"
    by (auto simp add: exists_def isfile_def isdir_def dest: map_of_SomeD
        intro: rev_image_eqI)
  then show ?thesis by (rule finite_subset) simp
qed

lemma finite_taken: "finite {k. c \<le> k \<and> exists s (candidate d f k)}"
proof -
  have "inj (candidate d f)" by (auto simp add: inj_def dest: candidate_inj)
  then have "finite (candidate d f -` {p. exists s p})"
    using finite_existing by (rule finite_vimageI [rotated])
  moreover have "{k. c \<le> k \<and> exists s (candidate d f k)} \<subseteq> candidate d f -` {p. exists s p}"
    by auto
  ultimately show ?thesis by (rule rev_finite_subset)
qed

lemma card_taken:
  "card {k. c \<le> k \<and> exists s (candidate d f k)}
   = card {k. Suc c \<le> k \<and> exists s (candidate d f k)}
     + (if exists s (candidate d f c) then 1 else 0)"
proof (cases "exists s (candidate d f c)")
  case True
  have "{k. c \<le> k \<and> exists s (candidate d f k)}
        = insert c {k. Suc c \<le> k \<and> exists s (candidate d f k)}"
    using True by (auto simp add: Suc_le_eq le_less)
  moreover have "c \<notin> {k. Suc c \<le> k \<and> exists s (candidate d f k)}" by simp
  ultimately show ?thesis using True finite_taken [of "Suc c" s d f] by simp
next
  case False
  have "{k. c \<le> k \<and> exists s (candidate d f k)} = {k. Suc c \<le> k \<and> exists s (candidate d f k)}"
    using False by (auto simp add: Suc_le_eq le_less)
  then show ?thesis using False by simp
qed

text \<open>
  Lines 113 to 117: the loop that looks for a name not in use. It ends because the file
  system holds finitely many paths and the names tried are pairwise different.
\<close>

function free_path :: "fs \<Rightarrow> string \<Rightarrow> string \<Rightarrow> string \<Rightarrow> nat \<Rightarrow> string" where
  "free_path s book_dir filename new_filepath counter =
     (if exists s new_filepath
      then free_path s book_dir filename (candidate book_dir filename counter) (counter + 1)
      else new_filepath)"
  by pat_completeness auto
termination
proof (relation "measure (\<lambda>(s, book_dir, filename, new_filepath, counter).
          card {k. counter \<le> k \<and> exists s (candidate book_dir filename k)}
          + (if exists s new_filepath then 1 else 0))")
  show "wf (measure (\<lambda>(s, book_dir, filename, new_filepath, counter).
          card {k. counter \<le> k \<and> exists s (candidate book_dir filename k)}
          + (if exists s new_filepath then 1 else 0)))"
    by simp
next
  fix s book_dir filename new_filepath and counter :: nat
  assume "exists s new_filepath"
  then show "((s, book_dir, filename, candidate book_dir filename counter, counter + 1),
              (s, book_dir, filename, new_filepath, counter))
             \<in> measure (\<lambda>(s, book_dir, filename, new_filepath, counter).
                  card {k. counter \<le> k \<and> exists s (candidate book_dir filename k)}
                  + (if exists s new_filepath then 1 else 0))"
    using card_taken [of counter s book_dir filename] by simp
qed

declare free_path.simps [simp del]

lemma free_path_free: "\<not> exists s (free_path s book_dir filename new_filepath counter)"
proof (induction s book_dir filename new_filepath counter rule: free_path.induct)
  case (1 s book_dir filename new_filepath counter)
  then show ?case by (subst free_path.simps) simp
qed


subsection \<open>The methods of \<open>AudiobookProcessor\<close>\<close>

text \<open>The object \<open>AudiobookProcessor\<close>: the fields its methods read and write.\<close>

record processor =
  audiobooks_dir :: string
  processed_files :: "string list"
  skipped_files :: "string list"
  processed_artists :: "string set"

text \<open>
  \<open>get_metadata(filepath)\<close>: the container of the file; when reading raises, an empty
  container is saved to the file and returned; when that raises too, \<open>None\<close>.
\<close>

definition get_metadata :: "fs \<Rightarrow> string \<Rightarrow> tags option \<times> fs" where
  "get_metadata s filepath =
     (case ID3_load s filepath of
        Inr t \<Rightarrow> (Some t, s)
      | Inl e \<Rightarrow>
          (case ID3_save s filepath [] of
             Inr s' \<Rightarrow> (Some [], s')
           | Inl e' \<Rightarrow> (None, s)))"

text \<open>
  \<open>str(audio.get(key, [default])[0])\<close>: the first string of the text frame stored under
  the key, the default when the key is absent; a text frame with no string raises
  \<open>IndexError\<close>, a frame that is not a text frame \<open>TypeError\<close>.
\<close>

definition get_text :: "tags \<Rightarrow> string \<Rightarrow> string \<Rightarrow> error + string" where
  "get_text audio key dflt =
     (case lookup audio key of
        None \<Rightarrow> Inr dflt
      | Some (TextFrame fid enc txt) \<Rightarrow> (case txt of [] \<Rightarrow> Inl IndexError | x # xs \<Rightarrow> Inr x)
      | Some (OpaqueFrame k bytes) \<Rightarrow> Inl TypeError)"

definition chapter_key :: "string \<Rightarrow> bool" where
  "chapter_key key = (startswith key ''CHAP'' \<or> startswith key ''CTOC'')"

text \<open>Lines 52 to 57: a new container receives the chapter frames of the old one.\<close>

definition copy_chapters :: "tags \<Rightarrow> tags" where
  "copy_chapters audio =
     fold (\<lambda>key new_tags.
             if chapter_key key
             then (case lookup audio key of Some f \<Rightarrow> add new_tags f | None \<Rightarrow> new_tags)
             else new_tags)
          (keys audio) []"

text \<open>Lines 60 to 65: the six frames added.\<close>

definition add_required :: "tags \<Rightarrow> string \<Rightarrow> string \<Rightarrow> string \<Rightarrow> tags" where
  "add_required new_tags ti artist album =
     add (add (add (add (add (add new_tags
       (TextFrame ''TIT2'' 3 [ti])) (TextFrame ''TPE1'' 3 [artist]))
       (TextFrame ''TALB'' 3 [album])) (TextFrame ''TCON'' 3 [''Audiobook'']))
       (TextFrame ''TMED'' 3 [''Audiobook''])) (TextFrame ''TCMP'' 3 [''1''])"

text \<open>
  \<open>update_audiobook_metadata(filepath, existing_metadata)\<close>: \<open>True\<close> when the new
  container was saved to the file, \<open>False\<close> when there was no container to start from or
  a step raised. A container that is \<open>None\<close> or has no frame is false in the conditions
  of lines 42 and 43.
\<close>

definition update_audiobook_metadata :: "fs \<Rightarrow> string \<Rightarrow> tags option \<Rightarrow> bool \<times> fs" where
  "update_audiobook_metadata s filepath existing_metadata =
     (case (if existing_metadata \<noteq> None \<and> existing_metadata \<noteq> Some []
            then (existing_metadata, s) else get_metadata s filepath) of
        (None, s) \<Rightarrow> (False, s)
      | (Some audio, s) \<Rightarrow>
          if audio = [] then (False, s)
          else (case get_text audio ''TIT2'' ''Unknown Title'' of
                  Inl e \<Rightarrow> (False, s)
                | Inr ti \<Rightarrow>
                    (case get_text audio ''TPE1'' ''Unknown Artist'' of
                       Inl e \<Rightarrow> (False, s)
                     | Inr artist \<Rightarrow>
                         (case get_text audio ''TALB'' ti of
                            Inl e \<Rightarrow> (False, s)
                          | Inr album \<Rightarrow>
                              (case ID3_save s filepath
                                      (add_required (copy_chapters audio) ti artist album) of
                                 Inl e \<Rightarrow> (False, s)
                               | Inr s' \<Rightarrow> (True, s'))))))"

text \<open>\<open>get_book_info(metadata)\<close> for a container that is not empty: the title, the
  artist and the album.\<close>

definition get_book_info :: "tags \<Rightarrow> error + string \<times> string \<times> string" where
  "get_book_info metadata =
     and_then (get_text metadata ''TIT2'' ''Unknown Title'') (\<lambda>ti.
     and_then (get_text metadata ''TPE1'' ''Unknown Artist'') (\<lambda>artist.
     and_then (get_text metadata ''TALB'' ''Unknown Album'') (\<lambda>album.
       Inr (ti, artist, album))))"

text \<open>\<open>organize_file(source_path)\<close>: every exception is caught, and the path goes to the
  skipped list.\<close>

definition skip :: "processor \<Rightarrow> string \<Rightarrow> processor" where
  "skip pr source_path = pr\<lparr>skipped_files := skipped_files pr @ [source_path]\<rparr>"

definition organize_file :: "processor \<Rightarrow> fs \<Rightarrow> string \<Rightarrow> bool \<times> processor \<times> fs" where
  "organize_file pr s source_path =
     (case get_metadata s source_path of
        (None, s0) \<Rightarrow> (False, skip pr source_path, s0)
      | (Some metadata, s0) \<Rightarrow>
          if metadata = [] then (False, skip pr source_path, s0)
          else (case get_book_info metadata of
                  Inl e \<Rightarrow> (False, skip pr source_path, s0)
                | Inr (ti, artist, album) \<Rightarrow>
                    (let artist_dir = path_join (audiobooks_dir pr) artist
                     in case makedirs s0 artist_dir of
                          Inl e \<Rightarrow> (False, skip pr source_path, s0)
                        | Inr s1 \<Rightarrow>
                            (let book_dir = path_join artist_dir album
                             in case makedirs s1 book_dir of
                                  Inl e \<Rightarrow> (False, skip pr source_path, s1)
                                | Inr s2 \<Rightarrow>
                                    (let filename = basename source_path;
                                         new_filepath = free_path s2 book_dir filename
                                                          (path_join book_dir filename) 1
                                     in case copy2 s2 source_path new_filepath of
                                          Inl e \<Rightarrow> (False, skip pr source_path, s2)
                                        | Inr s3 \<Rightarrow>
                                            (case update_audiobook_metadata s3 new_filepath
                                                    (Some metadata) of
                                               (True, s4) \<Rightarrow>
                                                 (True,
                                                  pr\<lparr>processed_files := processed_files pr @ [source_path],
                                                     processed_artists := insert artist (processed_artists pr)\<rparr>,
                                                  s4)
                                             | (False, s4) \<Rightarrow>
                                                 (False, skip pr source_path, s4)))))))"

text \<open>\<open>process_libation_folder\<close>: the loop over the MP3 files that \<open>glob\<close> found.\<close>

definition process_libation_folder :: "processor \<Rightarrow> fs \<Rightarrow> string list \<Rightarrow> processor \<times> fs" where
  "process_libation_folder pr s mp3_files =
     fold (\<lambda>filepath (pr, s). case organize_file pr s filepath of (ok, pr', s') \<Rightarrow> (pr', s'))
       mp3_files (pr, s)"

lemma lookup_fold_chapters:
  "lookup (fold (\<lambda>key new_tags.
             if chapter_key key
             then (case lookup audio key of Some f \<Rightarrow> add new_tags f | None \<Rightarrow> new_tags)
             else new_tags) ks acc) k
   = (if k \<in> set ks \<and> chapter_key k \<and> lookup audio k \<noteq> None then lookup audio k
      else lookup acc k)"
proof (induction ks arbitrary: acc)
  case Nil
  then show ?case by simp
next
  case (Cons key ks)
  show ?case
  proof (cases "chapter_key key \<and> lookup audio key \<noteq> None")
    case False
    then show ?thesis using Cons.IH by auto
  next
    case True
    then obtain f where f: "lookup audio key = Some f" by auto
    then have h: "HashKey f = key" by (rule lookup_HashKey)
    show ?thesis using True f h Cons.IH [of "add acc f"] by (auto simp add: lookup_add)
  qed
qed

lemma lookup_copy_chapters:
  "lookup (copy_chapters audio) k = (if chapter_key k then lookup audio k else None)"
  using lookup_None_keys [of audio k]
  by (auto simp add: copy_chapters_def lookup_fold_chapters)

lemma distinct_fold_chapters:
  "distinct (keys acc) \<Longrightarrow>
   distinct (keys (fold (\<lambda>key new_tags.
             if chapter_key key
             then (case lookup audio key of Some f \<Rightarrow> add new_tags f | None \<Rightarrow> new_tags)
             else new_tags) ks acc))"
proof (induction ks arbitrary: acc)
  case Nil
  then show ?case by simp
next
  case (Cons key ks)
  show ?case
  proof (cases "chapter_key key")
    case False
    then show ?thesis using Cons.IH [OF Cons.prems] by simp
  next
    case True
    show ?thesis
    proof (cases "lookup audio key")
      case None
      then show ?thesis using True Cons.IH [OF Cons.prems] by simp
    next
      case (Some f)
      have "distinct (keys (add acc f))" using Cons.prems by (rule distinct_keys_add)
      from Cons.IH [OF this] show ?thesis using True Some by simp
    qed
  qed
qed

lemma distinct_copy_chapters: "distinct (keys (copy_chapters audio))"
  using distinct_fold_chapters [of "[]" audio "keys audio"]
  by (simp add: copy_chapters_def keys_def)

lemma lookup_add_required:
  "lookup (add_required t ti artist album) ''TIT2'' = Some (TextFrame ''TIT2'' 3 [ti])"
  "lookup (add_required t ti artist album) ''TPE1'' = Some (TextFrame ''TPE1'' 3 [artist])"
  "lookup (add_required t ti artist album) ''TALB'' = Some (TextFrame ''TALB'' 3 [album])"
  "lookup (add_required t ti artist album) ''TCON'' = Some (TextFrame ''TCON'' 3 [''Audiobook''])"
  "lookup (add_required t ti artist album) ''TMED'' = Some (TextFrame ''TMED'' 3 [''Audiobook''])"
  "lookup (add_required t ti artist album) ''TCMP'' = Some (TextFrame ''TCMP'' 3 [''1''])"
  by (simp_all add: add_required_def lookup_add)

lemma lookup_add_required_other:
  "k \<notin> {''TIT2'', ''TPE1'', ''TALB'', ''TCON'', ''TMED'', ''TCMP''} \<Longrightarrow>
   lookup (add_required t ti artist album) k = lookup t k"
  by (simp add: add_required_def lookup_add)

lemma distinct_add_required:
  "distinct (keys t) \<Longrightarrow> distinct (keys (add_required t ti artist album))"
  by (simp add: add_required_def distinct_keys_add)

lemma chapter_key_not_written:
  "chapter_key k \<Longrightarrow>
   k \<notin> {''TIT2'', ''TPE1'', ''TPE2'', ''TALB'', ''TCON'', ''TCOM'', ''TMED'', ''TCMP''}"
  by (auto simp add: chapter_key_def)

lemma get_metadata_Some:
  assumes "get_metadata s filepath = (Some audio, s0)" and "audio \<noteq> []"
  shows "ID3_load s filepath = Inr audio \<and> s0 = s"
proof (cases "ID3_load s filepath")
  case (Inr t)
  with assms show ?thesis by (simp add: get_metadata_def)
next
  case (Inl e)
  with assms show ?thesis
    by (cases "ID3_save s filepath []") (auto simp add: get_metadata_def)
qed

lemma update_audiobook_metadata_True:
  assumes "update_audiobook_metadata s filepath existing_metadata = (True, s')"
  shows "\<exists>audio ti artist album.
           (existing_metadata = Some audio
            \<or> (existing_metadata = None \<or> existing_metadata = Some [])
               \<and> ID3_load s filepath = Inr audio)
         \<and> audio \<noteq> []
         \<and> get_text audio ''TIT2'' ''Unknown Title'' = Inr ti
         \<and> get_text audio ''TPE1'' ''Unknown Artist'' = Inr artist
         \<and> get_text audio ''TALB'' ti = Inr album
         \<and> ID3_load s' filepath
             = Inr (written (add_required (copy_chapters audio) ti artist album))"
proof -
  obtain m s0 where g: "(if existing_metadata \<noteq> None \<and> existing_metadata \<noteq> Some []
            then (existing_metadata, s) else get_metadata s filepath) = (m, s0)"
    by (cases "if existing_metadata \<noteq> None \<and> existing_metadata \<noteq> Some []
            then (existing_metadata, s) else get_metadata s filepath")
  from assms g obtain audio where m: "m = Some audio"
    by (cases m) (auto simp add: update_audiobook_metadata_def)
  from assms g m have ne: "audio \<noteq> []"
    by (auto simp add: update_audiobook_metadata_def split: if_splits)
  from assms g m ne obtain ti where ti: "get_text audio ''TIT2'' ''Unknown Title'' = Inr ti"
    by (cases "get_text audio ''TIT2'' ''Unknown Title''")
       (auto simp add: update_audiobook_metadata_def)
  from assms g m ne ti obtain artist where ar: "get_text audio ''TPE1'' ''Unknown Artist'' = Inr artist"
    by (cases "get_text audio ''TPE1'' ''Unknown Artist''")
       (auto simp add: update_audiobook_metadata_def)
  from assms g m ne ti ar obtain album where al: "get_text audio ''TALB'' ti = Inr album"
    by (cases "get_text audio ''TALB'' ti")
       (auto simp add: update_audiobook_metadata_def)
  from assms g m ne ti ar al
  have sv: "ID3_save s0 filepath (add_required (copy_chapters audio) ti artist album) = Inr s'"
    by (cases "ID3_save s0 filepath (add_required (copy_chapters audio) ti artist album)")
       (auto simp add: update_audiobook_metadata_def)
  have d: "distinct (keys (add_required (copy_chapters audio) ti artist album))"
    by (simp add: distinct_add_required distinct_copy_chapters)
  have l: "ID3_load s' filepath
             = Inr (written (add_required (copy_chapters audio) ti artist album))"
    using sv d by (rule ID3_load_save)
  have src: "existing_metadata = Some audio
            \<or> (existing_metadata = None \<or> existing_metadata = Some [])
               \<and> ID3_load s filepath = Inr audio"
  proof (cases "existing_metadata \<noteq> None \<and> existing_metadata \<noteq> Some []")
    case True
    then show ?thesis using g m by simp
  next
    case False
    then have "get_metadata s filepath = (Some audio, s0)" using g m by auto
    from get_metadata_Some [OF this ne] show ?thesis using False by simp
  qed
  show ?thesis using src ne ti ar al l by blast
qed


subsection \<open>Claim C2\<close>

text \<open>
  C2, the other frames as the claim has them: the file of the example has a chapter
  frame, a title frame and a picture frame; after the update of
  \<^verbatim>\<open>liberate-update-metadata.py\<close> the picture frame is still in the tag.
\<close>

theorem update_metadata_keeps_other_frames:
  "ID3_load lib_fs ''/m/Music/J.R.R. Tolkien/01 - The Hobbit.mp3''
     = Inr [OpaqueFrame ''CHAP:ch0'' ''c0'', TextFrame ''TIT2'' 1 [''old''],
            OpaqueFrame ''APIC:'' ''png'']
   \<and> snd (update_metadata lib_fs ''/m/Music/J.R.R. Tolkien/01 - The Hobbit.mp3'' the_hobbit) = None
   \<and> and_then
        (ID3_load (fst (update_metadata lib_fs ''/m/Music/J.R.R. Tolkien/01 - The Hobbit.mp3''
                          the_hobbit))
           ''/m/Music/J.R.R. Tolkien/01 - The Hobbit.mp3'')
        (\<lambda>t. Inr (lookup t ''APIC:'', lookup t ''CHAP:ch0''))
      = Inr (Some (OpaqueFrame ''APIC:'' ''png''), Some (OpaqueFrame ''CHAP:ch0'' ''c0''))"
  by code_simp

text \<open>
  C2, amended. Saving writes every frame of a container but the text frames whose text
  is empty; \<open>kept\<close> says what is read again of the frame under a key, and a chapter or
  table-of-contents frame, which is not a text frame, is read again as it was. When
  \<open>update_audiobook_metadata\<close> saves (it returns \<open>True\<close>), it started from a container
  that is not empty, the one passed or, when none or an empty one was passed, the one
  read from the file, and the tag of the file is then exactly: every frame of that
  container whose key begins with \<open>CHAP\<close> or \<open>CTOC\<close>, unchanged; the frames \<open>TIT2\<close>,
  \<open>TPE1\<close>, \<open>TALB\<close> with the title, artist and album read from that container (none for
  an empty string), \<open>TCON\<close>, \<open>TMED\<close>, \<open>TCMP\<close>; and nothing else. When the update of
  \<^verbatim>\<open>liberate-update-metadata.py\<close> ends without an exception, every frame of the tag it
  opened, the chapter frames among them, is still in the tag, except under the eight
  keys it writes: that update does not discard the other frames.
\<close>

theorem fusion_keeps_chapter_frames:
  "(update_audiobook_metadata s filepath existing_metadata = (True, s') \<longrightarrow>
      (\<exists>audio new ti artist album.
           (existing_metadata = Some audio
            \<or> (existing_metadata = None \<or> existing_metadata = Some [])
               \<and> ID3_load s filepath = Inr audio)
         \<and> audio \<noteq> []
         \<and> ID3_load s' filepath = Inr new
         \<and> (\<forall>k. chapter_key k \<longrightarrow> lookup new k = kept (lookup audio k))
         \<and> (\<forall>k. \<not> chapter_key k
                \<and> k \<notin> {''TIT2'', ''TPE1'', ''TALB'', ''TCON'', ''TMED'', ''TCMP''}
                \<longrightarrow> lookup new k = None)
         \<and> get_text audio ''TIT2'' ''Unknown Title'' = Inr ti
         \<and> get_text audio ''TPE1'' ''Unknown Artist'' = Inr artist
         \<and> get_text audio ''TALB'' ti = Inr album
         \<and> lookup new ''TIT2'' = (if ti = [] then None else Some (TextFrame ''TIT2'' 3 [ti]))
         \<and> lookup new ''TPE1'' = (if artist = [] then None
                                   else Some (TextFrame ''TPE1'' 3 [artist]))
         \<and> lookup new ''TALB'' = (if album = [] then None
                                   else Some (TextFrame ''TALB'' 3 [album]))
         \<and> lookup new ''TCON'' = Some (TextFrame ''TCON'' 3 [''Audiobook''])
         \<and> lookup new ''TMED'' = Some (TextFrame ''TMED'' 3 [''Audiobook''])
         \<and> lookup new ''TCMP'' = Some (TextFrame ''TCMP'' 3 [''1''])))
   \<and> kept None = None
   \<and> kept (Some (OpaqueFrame key bytes)) = Some (OpaqueFrame key bytes)
   \<and> kept (Some (TextFrame fid enc txt))
       = (if txt = [] \<or> txt = [[]] then None else Some (TextFrame fid enc txt))
   \<and> (update_metadata s2 p b = (s2', None) \<longrightarrow>
      (\<exists>old new. open_easy s2 p = Inr old \<and> ID3_load s2' p = Inr new
         \<and> (\<forall>k. chapter_key k \<longrightarrow> lookup new k = kept (lookup old k))
         \<and> (\<forall>k. k \<notin> {''TIT2'', ''TPE1'', ''TPE2'', ''TALB'', ''TCON'', ''TCOM'', ''TMED'', ''TCMP''}
                \<longrightarrow> lookup new k = kept (lookup old k))))"
proof (intro conjI impI)
  assume "update_audiobook_metadata s filepath existing_metadata = (True, s')"
  from update_audiobook_metadata_True [OF this]
  obtain audio ti artist album where src: "existing_metadata = Some audio
            \<or> (existing_metadata = None \<or> existing_metadata = Some [])
               \<and> ID3_load s filepath = Inr audio"
    and ne: "audio \<noteq> []"
    and ti: "get_text audio ''TIT2'' ''Unknown Title'' = Inr ti"
    and ar: "get_text audio ''TPE1'' ''Unknown Artist'' = Inr artist"
    and al: "get_text audio ''TALB'' ti = Inr album"
    and l: "ID3_load s' filepath
              = Inr (written (add_required (copy_chapters audio) ti artist album))"
    by blast
  let ?t = "add_required (copy_chapters audio) ti artist album"
  let ?new = "written ?t"
  have d: "distinct (keys ?t)"
    by (simp add: distinct_add_required distinct_copy_chapters)
  note lw = lookup_written_kept [OF d]
  have ch: "\<forall>k. chapter_key k \<longrightarrow> lookup ?new k = kept (lookup audio k)"
  proof (intro allI impI)
    fix k assume c: "chapter_key k"
    then have n: "k \<notin> {''TIT2'', ''TPE1'', ''TALB'', ''TCON'', ''TMED'', ''TCMP''}"
      using chapter_key_not_written [of k] by simp
    show "lookup ?new k = kept (lookup audio k)"
      using c lookup_add_required_other [OF n, of "copy_chapters audio" ti artist album]
        lookup_copy_chapters [of audio k]
      by (simp add: lw)
  qed
  have ot: "\<forall>k. \<not> chapter_key k
                \<and> k \<notin> {''TIT2'', ''TPE1'', ''TALB'', ''TCON'', ''TMED'', ''TCMP''}
                \<longrightarrow> lookup ?new k = None"
  proof (intro allI impI, elim conjE)
    fix k assume c: "\<not> chapter_key k"
      and n: "k \<notin> {''TIT2'', ''TPE1'', ''TALB'', ''TCON'', ''TMED'', ''TCMP''}"
    show "lookup ?new k = None"
      using c lookup_add_required_other [OF n, of "copy_chapters audio" ti artist album]
        lookup_copy_chapters [of audio k]
      by (simp add: lw kept_def)
  qed
  note six = lookup_add_required [of "copy_chapters audio" ti artist album]
  have s1: "lookup ?new ''TIT2'' = (if ti = [] then None else Some (TextFrame ''TIT2'' 3 [ti]))"
    by (simp add: lw six kept_def)
  have s2: "lookup ?new ''TPE1'' = (if artist = [] then None
                                   else Some (TextFrame ''TPE1'' 3 [artist]))"
    by (simp add: lw six kept_def)
  have s3: "lookup ?new ''TALB'' = (if album = [] then None
                                   else Some (TextFrame ''TALB'' 3 [album]))"
    by (simp add: lw six kept_def)
  have s4: "lookup ?new ''TCON'' = Some (TextFrame ''TCON'' 3 [''Audiobook''])"
    by (simp add: lw six kept_def)
  have s5: "lookup ?new ''TMED'' = Some (TextFrame ''TMED'' 3 [''Audiobook''])"
    by (simp add: lw six kept_def)
  have s6: "lookup ?new ''TCMP'' = Some (TextFrame ''TCMP'' 3 [''1''])"
    by (simp add: lw six kept_def)
  show "\<exists>audio new ti artist album.
           (existing_metadata = Some audio
            \<or> (existing_metadata = None \<or> existing_metadata = Some [])
               \<and> ID3_load s filepath = Inr audio)
         \<and> audio \<noteq> []
         \<and> ID3_load s' filepath = Inr new
         \<and> (\<forall>k. chapter_key k \<longrightarrow> lookup new k = kept (lookup audio k))
         \<and> (\<forall>k. \<not> chapter_key k
                \<and> k \<notin> {''TIT2'', ''TPE1'', ''TALB'', ''TCON'', ''TMED'', ''TCMP''}
                \<longrightarrow> lookup new k = None)
         \<and> get_text audio ''TIT2'' ''Unknown Title'' = Inr ti
         \<and> get_text audio ''TPE1'' ''Unknown Artist'' = Inr artist
         \<and> get_text audio ''TALB'' ti = Inr album
         \<and> lookup new ''TIT2'' = (if ti = [] then None else Some (TextFrame ''TIT2'' 3 [ti]))
         \<and> lookup new ''TPE1'' = (if artist = [] then None
                                   else Some (TextFrame ''TPE1'' 3 [artist]))
         \<and> lookup new ''TALB'' = (if album = [] then None
                                   else Some (TextFrame ''TALB'' 3 [album]))
         \<and> lookup new ''TCON'' = Some (TextFrame ''TCON'' 3 [''Audiobook''])
         \<and> lookup new ''TMED'' = Some (TextFrame ''TMED'' 3 [''Audiobook''])
         \<and> lookup new ''TCMP'' = Some (TextFrame ''TCMP'' 3 [''1''])"
    apply (rule exI [of _ audio])
    apply (rule exI [of _ ?new])
    apply (rule exI [of _ ti])
    apply (rule exI [of _ artist])
    apply (rule exI [of _ album])
    apply (intro conjI)
                 apply (rule src)
                apply (rule ne)
               apply (rule l)
              apply (rule ch)
             apply (rule ot)
            apply (rule ti)
           apply (rule ar)
          apply (rule al)
         apply (rule s1)
        apply (rule s2)
       apply (rule s3)
      apply (rule s4)
     apply (rule s5)
    apply (rule s6)
    done
next
  show "kept None = None" by (simp add: kept_def)
next
  show "kept (Some (OpaqueFrame key bytes)) = Some (OpaqueFrame key bytes)"
    by (simp add: kept_def)
next
  show "kept (Some (TextFrame fid enc txt))
       = (if txt = [] \<or> txt = [[]] then None else Some (TextFrame fid enc txt))"
    by (simp add: kept_def)
next
  assume u: "update_metadata s2 p b = (s2', None)"
  from update_metadata_None [OF u] obtain t0 ti au na where o: "open_easy s2 p = Inr t0"
    and l: "ID3_load s2' p = Inr (written (set_additional (written (basic_tags t0 b ti au na))))"
    by blast
  let ?new = "written (set_additional (written (basic_tags t0 b ti au na)))"
  note lk = lookup_updated [OF open_easy_distinct [OF o], of b ti au na]
  have ot: "\<forall>k. k \<notin> {''TIT2'', ''TPE1'', ''TPE2'', ''TALB'', ''TCON'', ''TCOM'', ''TMED'', ''TCMP''}
                \<longrightarrow> lookup ?new k = kept (lookup t0 k)"
  proof (intro allI impI)
    fix k
    assume n: "k \<notin> {''TIT2'', ''TPE1'', ''TPE2'', ''TALB'', ''TCON'', ''TCOM'', ''TMED'', ''TCMP''}"
    then have n6: "k \<notin> {''TIT2'', ''TPE1'', ''TPE2'', ''TALB'', ''TCON'', ''TCOM''}"
      and n2: "k \<noteq> ''TCMP''" "k \<noteq> ''TMED''" by simp_all
    have "lookup ?new k = kept (lookup (basic_tags t0 b ti au na) k)"
      using n2 by (simp only: lk if_False)
    also have "\<dots> = kept (lookup t0 k)"
      using lookup_basic_tags_other [OF n6, of t0 b ti au na] by simp
    finally show "lookup ?new k = kept (lookup t0 k)" .
  qed
  have ch: "\<forall>k. chapter_key k \<longrightarrow> lookup ?new k = kept (lookup t0 k)"
  proof (intro allI impI)
    fix k assume "chapter_key k"
    then have "k \<notin> {''TIT2'', ''TPE1'', ''TPE2'', ''TALB'', ''TCON'', ''TCOM'', ''TMED'', ''TCMP''}"
      by (rule chapter_key_not_written)
    then show "lookup ?new k = kept (lookup t0 k)" by (rule ot [rule_format])
  qed
  show "\<exists>old new. open_easy s2 p = Inr old \<and> ID3_load s2' p = Inr new
         \<and> (\<forall>k. chapter_key k \<longrightarrow> lookup new k = kept (lookup old k))
         \<and> (\<forall>k. k \<notin> {''TIT2'', ''TPE1'', ''TPE2'', ''TALB'', ''TCON'', ''TCOM'', ''TMED'', ''TCMP''}
                \<longrightarrow> lookup new k = kept (lookup old k))"
    apply (rule exI [of _ t0])
    apply (rule exI [of _ ?new])
    apply (intro conjI)
       apply (rule o)
      apply (rule l)
     apply (rule ch)
    apply (rule ot)
    done
qed

definition hobbit_tags :: tags where
  "hobbit_tags = [OpaqueFrame ''CHAP:ch0'' ''c0'', TextFrame ''TIT2'' 1 [''The Hobbit''],
                  TextFrame ''TPE1'' 1 [''J.R.R. Tolkien''],
                  OpaqueFrame ''APIC:'' ''png'', OpaqueFrame ''CTOC:toc'' ''t'']"

definition libation_fs :: fs where
  "libation_fs =
     \<lparr>files = [(''/h/Libation/a/01 - The Hobbit.mp3'',
                 \<lparr>content = ''a'', mpeg = True, id3 = Header hobbit_tags\<rparr>),
                (''/h/Libation/b/01 - The Hobbit.mp3'',
                 \<lparr>content = ''b'', mpeg = True,
                  id3 = Header [TextFrame ''TIT2'' 1 [''The Hobbit''],
                                TextFrame ''TPE1'' 1 [''J.R.R. Tolkien'']]\<rparr>),
                (''/h/Libation/c/x.mp3'', \<lparr>content = ''c'', mpeg = True, id3 = NoHeader\<rparr>)],
      dirs = [''/h'', ''/h/Libation'', ''/h/Libation/a'', ''/h/Libation/b'', ''/h/Libation/c'',
              ''/A''],
      denied = []\<rparr>"

lemma load_hobbit_tags:
  "ID3_load libation_fs ''/h/Libation/a/01 - The Hobbit.mp3'' = Inr hobbit_tags"
  by code_simp

lemma update_hobbit_True:
  "fst (update_audiobook_metadata libation_fs ''/h/Libation/a/01 - The Hobbit.mp3'' None)"
  by code_simp

lemma update_hobbit_None:
  "snd (update_metadata libation_fs ''/h/Libation/a/01 - The Hobbit.mp3'' the_hobbit) = None"
  by code_simp

lemma open_hobbit:
  "open_easy libation_fs ''/h/Libation/a/01 - The Hobbit.mp3'' = Inr hobbit_tags"
  by code_simp

theorem fusion_keeps_chapter_frames_witness:
  "(\<exists>s' new. update_audiobook_metadata libation_fs ''/h/Libation/a/01 - The Hobbit.mp3'' None
                 = (True, s')
        \<and> ID3_load s' ''/h/Libation/a/01 - The Hobbit.mp3'' = Inr new
        \<and> lookup new ''CHAP:ch0'' = Some (OpaqueFrame ''CHAP:ch0'' ''c0'')
        \<and> lookup new ''CTOC:toc'' = Some (OpaqueFrame ''CTOC:toc'' ''t'')
        \<and> lookup new ''APIC:'' = None)
   \<and> (\<exists>s' new. update_metadata libation_fs ''/h/Libation/a/01 - The Hobbit.mp3'' the_hobbit
                 = (s', None)
        \<and> ID3_load s' ''/h/Libation/a/01 - The Hobbit.mp3'' = Inr new
        \<and> lookup new ''CHAP:ch0'' = Some (OpaqueFrame ''CHAP:ch0'' ''c0'')
        \<and> lookup new ''APIC:'' = Some (OpaqueFrame ''APIC:'' ''png''))"
proof -
  let ?p = "''/h/Libation/a/01 - The Hobbit.mp3''"
  let ?u = "update_audiobook_metadata libation_fs ?p None"
  let ?v = "update_metadata libation_fs ?p the_hobbit"
  have u: "?u = (True, snd ?u)"
    using update_hobbit_True by (cases ?u) simp
  have v: "?v = (fst ?v, None)"
    using update_hobbit_None by (cases ?v) simp
  have c: "chapter_key ''CHAP:ch0''" and c': "chapter_key ''CTOC:toc''"
    by (simp_all add: chapter_key_def)
  have a: "\<not> chapter_key ''APIC:''
           \<and> ''APIC:'' \<notin> {''TIT2'', ''TPE1'', ''TALB'', ''TCON'', ''TMED'', ''TCMP''}"
    by (simp add: chapter_key_def)
  have a': "''APIC:'' \<notin> {''TIT2'', ''TPE1'', ''TPE2'', ''TALB'', ''TCON'', ''TCOM'', ''TMED'', ''TCMP''}"
    by simp
  have k1: "kept (lookup hobbit_tags ''CHAP:ch0'') = Some (OpaqueFrame ''CHAP:ch0'' ''c0'')"
    and k2: "kept (lookup hobbit_tags ''CTOC:toc'') = Some (OpaqueFrame ''CTOC:toc'' ''t'')"
    and k3: "kept (lookup hobbit_tags ''APIC:'') = Some (OpaqueFrame ''APIC:'' ''png'')"
    by (simp_all add: hobbit_tags_def kept_def)
  note th = fusion_keeps_chapter_frames [where s = libation_fs and filepath = ?p
      and existing_metadata = None and s' = "snd ?u" and ?s2.0 = libation_fs and p = ?p
      and b = the_hobbit and ?s2' = "fst ?v"]
  have "\<exists>audio new. ID3_load libation_fs ?p = Inr audio
          \<and> ID3_load (snd ?u) ?p = Inr new
          \<and> (\<forall>k. chapter_key k \<longrightarrow> lookup new k = kept (lookup audio k))
          \<and> (\<forall>k. \<not> chapter_key k
                \<and> k \<notin> {''TIT2'', ''TPE1'', ''TALB'', ''TCON'', ''TMED'', ''TCMP''}
                \<longrightarrow> lookup new k = None)"
    using th [THEN conjunct1, rule_format, OF u]
    apply (elim exE conjE)
    subgoal for audio new ti artist album
      apply (rule exI [of _ audio])
      apply (rule exI [of _ new])
      apply simp
      done
    done
  then obtain audio new where la: "ID3_load libation_fs ?p = Inr audio"
    and ln: "ID3_load (snd ?u) ?p = Inr new"
    and ch: "\<forall>k. chapter_key k \<longrightarrow> lookup new k = kept (lookup audio k)"
    and ot: "\<forall>k. \<not> chapter_key k
                \<and> k \<notin> {''TIT2'', ''TPE1'', ''TALB'', ''TCON'', ''TMED'', ''TCMP''}
                \<longrightarrow> lookup new k = None"
    apply (elim exE conjE)
    subgoal premises prems for audio new
      by (rule prems(1) [OF prems(2) prems(3) prems(4) prems(5)])
    done
  have au: "audio = hobbit_tags" using la load_hobbit_tags by simp
  have r1: "lookup new ''CHAP:ch0'' = Some (OpaqueFrame ''CHAP:ch0'' ''c0'')"
    using ch [rule_format, OF c] k1 au by simp
  have r2: "lookup new ''CTOC:toc'' = Some (OpaqueFrame ''CTOC:toc'' ''t'')"
    using ch [rule_format, OF c'] k2 au by simp
  have r3: "lookup new ''APIC:'' = None"
    using ot [rule_format, OF a] .
  have "\<exists>old new. open_easy libation_fs ?p = Inr old \<and> ID3_load (fst ?v) ?p = Inr new
         \<and> (\<forall>k. chapter_key k \<longrightarrow> lookup new k = kept (lookup old k))
         \<and> (\<forall>k. k \<notin> {''TIT2'', ''TPE1'', ''TPE2'', ''TALB'', ''TCON'', ''TCOM'', ''TMED'', ''TCMP''}
                \<longrightarrow> lookup new k = kept (lookup old k))"
    using th [THEN conjunct2, THEN conjunct2, THEN conjunct2, THEN conjunct2, rule_format, OF v] .
  then obtain old new2 where lo: "open_easy libation_fs ?p = Inr old"
    and ln2: "ID3_load (fst ?v) ?p = Inr new2"
    and ch2: "\<forall>k. chapter_key k \<longrightarrow> lookup new2 k = kept (lookup old k)"
    and ot2: "\<forall>k. k \<notin> {''TIT2'', ''TPE1'', ''TPE2'', ''TALB'', ''TCON'', ''TCOM'', ''TMED'', ''TCMP''}
                \<longrightarrow> lookup new2 k = kept (lookup old k)"
    apply (elim exE conjE)
    subgoal premises prems for old new
      by (rule prems(1) [OF prems(2) prems(3) prems(4) prems(5)])
    done
  have ol: "old = hobbit_tags" using lo open_hobbit by simp
  have q1: "lookup new2 ''CHAP:ch0'' = Some (OpaqueFrame ''CHAP:ch0'' ''c0'')"
    using ch2 [rule_format, OF c] k1 ol by simp
  have q2: "lookup new2 ''APIC:'' = Some (OpaqueFrame ''APIC:'' ''png'')"
    using ot2 [rule_format, OF a'] k3 ol by simp
  show ?thesis
    apply (rule conjI)
     apply (rule exI [of _ "snd ?u"])
     apply (rule exI [of _ new])
     apply (intro conjI)
         apply (rule u)
        apply (rule ln)
       apply (rule r1)
      apply (rule r2)
     apply (rule r3)
    apply (rule exI [of _ "fst ?v"])
    apply (rule exI [of _ new2])
    apply (intro conjI)
       apply (rule v)
      apply (rule ln2)
     apply (rule q1)
    apply (rule q2)
    done
qed


subsection \<open>Claim C3\<close>

text \<open>What is under a directory: the paths of the files and their bytes.\<close>

definition files_under :: "fs \<Rightarrow> string \<Rightarrow> (string \<times> string) list" where
  "files_under s d = map (\<lambda>(p, f). (p, content f)) (filter (\<lambda>(p, f). under d p) (files s))"

text \<open>
  C3 on two files of one name. The library of the example has
  \<^verbatim>\<open>01 - The Hobbit.mp3\<close> in two folders, with the bytes \<open>a\<close> and \<open>b\<close>, and the
  catalog has the book. \<open>process_audiobooks\<close> of \<^verbatim>\<open>liberate-update-metadata.py\<close>
  copies both to the same path: after the first folder the copy holds \<open>a\<close>, after the
  second it holds \<open>b\<close>, both names are in the processed list and the output directory
  has one file. \<open>organize_file\<close> of \<^verbatim>\<open>audiobooks-update-metadata-from-mp3.py\<close>, on
  two such files, gives the second the suffix \<open>_1\<close> and both copies are there.
\<close>

theorem process_audiobooks_overwrites:
  "map (\<lambda>(p, f). (p, content f)) (files lib_fs)
     = [(''/m/Music/J.R.R. Tolkien/01 - The Hobbit.mp3'', ''a''),
        (''/m/Music/Other/01 - The Hobbit.mp3'', ''b''),
        (''/m/Music/Other/dune part 1.MP3'', ''c'')]
   \<and> and_then (process_audiobooks (Inr [hobbit_row]) ''/m'' lib_fs
                 [(''/m/Music/J.R.R. Tolkien'', [''01 - The Hobbit.mp3''])])
        (\<lambda>(s, P, S). Inr (P, S, files_under s ''/m/Audiobooks''))
      = Inr ([''01 - The Hobbit.mp3''], [],
             [(''/m/Audiobooks/J.R.R. Tolkien/The Hobbit/01 - The Hobbit.mp3'', ''a'')])
   \<and> and_then (process_audiobooks (Inr [hobbit_row]) ''/m'' lib_fs
                 [(''/m/Music/J.R.R. Tolkien'', [''01 - The Hobbit.mp3'']),
                  (''/m/Music/Other'', [''01 - The Hobbit.mp3''])])
        (\<lambda>(s, P, S). Inr (P, S, files_under s ''/m/Audiobooks''))
      = Inr ([''01 - The Hobbit.mp3'', ''01 - The Hobbit.mp3''], [],
             [(''/m/Audiobooks/J.R.R. Tolkien/The Hobbit/01 - The Hobbit.mp3'', ''b'')])
   \<and> (case process_libation_folder
               \<lparr>audiobooks_dir = ''/A'', processed_files = [], skipped_files = [],
                processed_artists = {}\<rparr> libation_fs
               [''/h/Libation/a/01 - The Hobbit.mp3'', ''/h/Libation/b/01 - The Hobbit.mp3''] of
         (pr, s) \<Rightarrow> (processed_files pr, skipped_files pr, files_under s ''/A''))
      = ([''/h/Libation/a/01 - The Hobbit.mp3'', ''/h/Libation/b/01 - The Hobbit.mp3''], [],
         [(''/A/J.R.R. Tolkien/Unknown Album/01 - The Hobbit.mp3'', ''a''),
          (''/A/J.R.R. Tolkien/Unknown Album/01 - The Hobbit_1.mp3'', ''b'')])"
  by code_simp

end
